theory Spec2Isabelle
  imports Complex_Main "HOL-Library.Sublist" "HOL-Library.AList"
begin

section \<open>Python values\<close>

text \<open>
  Values as \<^verbatim>\<open>json.load\<close> returns them and as the untyped fields of the dataclasses of
  \<^verbatim>\<open>AC.py\<close> hold them. Numbers are idealised: \<^verbatim>\<open>int\<close>, \<^verbatim>\<open>float\<close> and \<^verbatim>\<open>bool\<close> are one
  constructor over the reals (Python's \<^verbatim>\<open>==\<close> and arithmetic identify \<^verbatim>\<open>1\<close>, \<^verbatim>\<open>1.0\<close> and
  \<^verbatim>\<open>True\<close>), without rounding, infinities or NaN. A dictionary is the association list of
  its items, keys distinct.
\<close>

datatype pyval =
    PNone
  | PNum real
  | PStr string
  | PList "pyval list"
  | PDict "(string \<times> pyval) list"

datatype py_error = TypeError | ValueError | AttributeError | KeyError | IndexError

text \<open>The arithmetic reading of a value: \<^verbatim>\<open>v - 0.0\<close> raises TypeError on anything else.\<close>

fun num_of :: "pyval \<Rightarrow> real option" where
  "num_of (PNum r) = Some r"
| "num_of _ = None"

text \<open>\<^verbatim>\<open>"left" in v\<close>: substring of a string, member of a list, key of a dictionary;
  TypeError on None and on a number.\<close>

fun has_sub :: "string \<Rightarrow> string \<Rightarrow> bool" where
  "has_sub sub [] = (sub = [])"
| "has_sub sub (c # cs) = (prefix sub (c # cs) \<or> has_sub sub cs)"

fun py_contains :: "string \<Rightarrow> pyval \<Rightarrow> py_error + bool" where
  "py_contains sub (PStr s) = Inr (has_sub sub s)"
| "py_contains sub (PList vs) = Inr (PStr sub \<in> set vs)"
| "py_contains sub (PDict kvs) = Inr (sub \<in> fst ` set kvs)"
| "py_contains sub _ = Inl TypeError"

section \<open>Recorder and player (class RecorderPlayer)\<close>

text \<open>The dataclass \<^verbatim>\<open>Event\<close>; the source annotates the fields but never checks them.\<close>

record Event =
  ev_t :: pyval
  ev_type :: pyval
  ev_x :: pyval
  ev_y :: pyval
  ev_dx :: pyval
  ev_dy :: pyval
  ev_button :: pyval
  ev_key :: pyval

text \<open>
  Log lines and result messages of the player, by meaning (the source's texts are Chinese):
  \<^item> \<open>MsgNoData\<close>: "no recorded data" (line 1028);
  \<^item> \<open>MsgAlreadyPlaying\<close>: "playback already in progress" (line 1030);
  \<^item> \<open>MsgStartPlayback\<close>: "playback started" (lines 1034 and 1078);
  \<^item> \<open>MsgStopPlayback\<close>: "playback stopped" (line 1082);
  \<^item> \<open>MsgDelay d\<close>: "playback starts after d seconds" (line 1039);
  \<^item> \<open>MsgLoopBegin n\<close>, \<open>MsgLoopEnd n\<close>: "round n begins / ends" (lines 1046, 1068);
  \<^item> \<open>MsgPlaybackDone\<close>: "playback finished" (line 1071);
  \<^item> \<open>MsgLoaded n\<close>: "loaded a recording of n events" (line 1094).
\<close>

datatype play_msg =
    MsgNoData
  | MsgAlreadyPlaying
  | MsgStartPlayback
  | MsgStopPlayback
  | MsgDelay real
  | MsgLoopBegin nat
  | MsgLoopEnd nat
  | MsgPlaybackDone
  | MsgLoaded nat

text \<open>What \<^verbatim>\<open>play_loop\<close> closes over when \<^verbatim>\<open>threading.Thread(target=play_loop)\<close> is started.\<close>

record play_task =
  events_copy :: "Event list"
  speed :: real
  loops :: int
  gap :: real
  delay :: real

record RecorderPlayer =
  recording :: "Event list"
  stop_play_event :: bool
  is_playing :: bool
  rp_log :: "play_msg list"
  threads :: "play_task list"

text \<open>\<^verbatim>\<open>start_playback\<close> (lines 1026-1078): the two guards, then the flag is cleared, the
  events are copied, the player is marked playing, the start is logged and the thread is
  started; the thread's body is \<open>play_loop\<close> below and does not run inside this call.\<close>

definition start_playback ::
  "real \<Rightarrow> int \<Rightarrow> real \<Rightarrow> real \<Rightarrow> RecorderPlayer \<Rightarrow> (bool \<times> play_msg) \<times> RecorderPlayer" where
  "start_playback sp lp gp dl s =
     (if recording s = [] then ((False, MsgNoData), s)
      else if is_playing s then ((False, MsgAlreadyPlaying), s)
      else ((True, MsgStartPlayback),
            s\<lparr>stop_play_event := False,
              is_playing := True,
              rp_log := rp_log s @ [MsgStartPlayback],
              threads := threads s @
                [\<lparr>events_copy = recording s, speed = sp, loops = lp, gap = gp, delay = dl\<rparr>]\<rparr>))"

definition stop_playback :: "RecorderPlayer \<Rightarrow> (bool \<times> play_msg) \<times> RecorderPlayer" where
  "stop_playback s = ((True, MsgStopPlayback), s\<lparr>stop_play_event := True\<rparr>)"

subsection \<open>Loading a recording\<close>





fun py_iter :: "pyval \<Rightarrow> py_error + pyval list" where
  "py_iter (PList vs) = Inr vs"
| "py_iter (PDict kvs) = Inr (map (\<lambda>kv. PStr (fst kv)) kvs)"
| "py_iter (PStr s) = Inr (map (\<lambda>c. PStr [c]) s)"
| "py_iter _ = Inl TypeError"


subsection \<open>The playback thread\<close>

text \<open>
  What a thread does is recorded as a list of steps, in order: a line passed to the logger,
  a call of \<^verbatim>\<open>time.sleep\<close> (tagged with the place of the call), a call of the pynput
  controller, a read of the stop flag with the value read, and the \<^verbatim>\<open>on_end\<close> callback of
  the \<^verbatim>\<open>finally\<close> block.
\<close>

datatype sleep_site = StartDelay | EventWait | LoopGap | PostClick

datatype button = LeftButton | RightButton

datatype action =
    SetPosition pyval pyval
  | Press button
  | Release button
  | Scroll pyval pyval
  | PressKey string
  | ReleaseKey string
  | Click button

datatype 'm step = Logged 'm | Slept sleep_site real | Issued action | Polled bool | Ended

text \<open>\<^verbatim>\<open>mouse.Button.left if "left" in ev.button else mouse.Button.right\<close>\<close>

definition pick_button :: "pyval \<Rightarrow> py_error + button" where
  "pick_button b =
     (case py_contains ''left'' b of
        Inl e \<Rightarrow> Inl e
      | Inr c \<Rightarrow> Inr (if c then LeftButton else RightButton))"

text \<open>The \<^verbatim>\<open>if/elif\<close> chain of lines 1052-1066. \<^verbatim>\<open>_press_key\<close> and \<^verbatim>\<open>_release_key\<close> call
  \<^verbatim>\<open>k.startswith\<close> outside their \<^verbatim>\<open>try\<close>, so a key that is no string raises
  AttributeError; what pynput makes of the token is the controller's business.\<close>

definition apply_event :: "Event \<Rightarrow> py_error + action list" where
  "apply_event ev =
     (if ev_type ev = PStr ''mouse_move'' then Inr [SetPosition (ev_x ev) (ev_y ev)]
      else if ev_type ev = PStr ''mouse_down'' then
        (case pick_button (ev_button ev) of Inl e \<Rightarrow> Inl e | Inr btn \<Rightarrow> Inr [Press btn])
      else if ev_type ev = PStr ''mouse_up'' then
        (case pick_button (ev_button ev) of Inl e \<Rightarrow> Inl e | Inr btn \<Rightarrow> Inr [Release btn])
      else if ev_type ev = PStr ''mouse_scroll'' then
        Inr [SetPosition (ev_x ev) (ev_y ev), Scroll (ev_dx ev) (ev_dy ev)]
      else if ev_type ev = PStr ''key_down'' then
        (case ev_key ev of PStr k \<Rightarrow> Inr [PressKey k] | _ \<Rightarrow> Inl AttributeError)
      else if ev_type ev = PStr ''key_up'' then
        (case ev_key ev of PStr k \<Rightarrow> Inr [ReleaseKey k] | _ \<Rightarrow> Inl AttributeError)
      else Inr [])"

text \<open>
  The thread shares the player with the other threads of the process. The only thing it
  reads from the player is the stop flag, so the calls the other threads make are placed at
  its reads: the schedule gives, for each read in turn, the calls made since the read
  before (none once the schedule is used up).
\<close>

datatype player_call = CallStopPlayback | CallStartPlayback real int real real

fun do_player_call :: "player_call \<Rightarrow> RecorderPlayer \<Rightarrow> RecorderPlayer" where
  "do_player_call CallStopPlayback s = snd (stop_playback s)"
| "do_player_call (CallStartPlayback sp lp gp dl) s = snd (start_playback sp lp gp dl s)"

definition play_is_set ::
  "player_call list list \<Rightarrow> RecorderPlayer \<Rightarrow> bool \<times> player_call list list \<times> RecorderPlayer" where
  "play_is_set sched s =
     (case sched of
        [] \<Rightarrow> (stop_play_event s, [], s)
      | cs # rest \<Rightarrow>
          (stop_play_event (fold do_player_call cs s), rest, fold do_player_call cs s))"

text \<open>The \<^verbatim>\<open>for ev in events_copy\<close> loop (lines 1047-1067). \<^verbatim>\<open>time.sleep\<close> raises
  ValueError on a negative argument.\<close>

datatype for_exit = Through | Return | Raise py_error

fun play_events ::
  "real \<Rightarrow> Event list \<Rightarrow> real \<Rightarrow> player_call list list \<Rightarrow> RecorderPlayer \<Rightarrow>
     for_exit \<times> play_msg step list \<times> player_call list list \<times> RecorderPlayer" where
  "play_events sp [] prev_t sched s = (Through, [], sched, s)"
| "play_events sp (ev # evs) prev_t sched s =
     (case play_is_set sched s of (stopped, sched1, s1) \<Rightarrow>
        if stopped then (Return, [Polled True], sched1, s1)
        else (case num_of (ev_t ev) of
            None \<Rightarrow> (Raise TypeError, [Polled False], sched1, s1)
          | Some tm \<Rightarrow>
              let wait_time = (tm - prev_t) / max sp (1 / 10 ^ 9) in
              if wait_time < 0 then (Raise ValueError, [Polled False], sched1, s1)
              else (case apply_event ev of
                  Inl e \<Rightarrow> (Raise e, [Polled False, Slept EventWait wait_time], sched1, s1)
                | Inr acts \<Rightarrow>
                    (case play_events sp evs tm sched1 s1 of (ex, steps, sched2, s2) \<Rightarrow>
                       (ex, [Polled False, Slept EventWait wait_time] @ map Issued acts @ steps,
                        sched2, s2)))))"

text \<open>The \<^verbatim>\<open>while\<close> loop (lines 1041-1071). \<^verbatim>\<open>loops == -1\<close> makes \<^verbatim>\<open>total_loops\<close> infinite, so
  the loop may run forever: the model takes fuel, one unit for each test of the loop
  condition, and answers \<open>OutOfFuel\<close> with the steps made so far when it runs out. The
  condition reads the flag only when more rounds remain (\<^verbatim>\<open>and\<close> is short-circuit).\<close>

datatype outcome = Finished | Cancelled | Crashed py_error | OutOfFuel

definition more_loops :: "int \<Rightarrow> nat \<Rightarrow> bool" where
  "more_loops lp loop_index = (lp = - 1 \<or> int loop_index < lp)"

fun play_while ::
  "nat \<Rightarrow> play_task \<Rightarrow> nat \<Rightarrow> player_call list list \<Rightarrow> RecorderPlayer \<Rightarrow>
     outcome \<times> play_msg step list \<times> player_call list list \<times> RecorderPlayer" where
  "play_while 0 task loop_index sched s = (OutOfFuel, [], sched, s)"
| "play_while (Suc fuel) task loop_index sched s =
     (if \<not> more_loops (loops task) loop_index
      then (Finished, [Logged MsgPlaybackDone], sched, s)
      else (case play_is_set sched s of (stopped, sched1, s1) \<Rightarrow>
        if stopped then (Finished, [Polled True, Logged MsgPlaybackDone], sched1, s1)
        else (case play_events (speed task) (events_copy task) 0 sched1 s1 of
            (Return, steps, sched2, s2) \<Rightarrow>
              (Cancelled,
               [Polled False, Logged (MsgLoopBegin (Suc loop_index))] @ steps, sched2, s2)
          | (Raise e, steps, sched2, s2) \<Rightarrow>
              (Crashed e,
               [Polled False, Logged (MsgLoopBegin (Suc loop_index))] @ steps, sched2, s2)
          | (Through, steps, sched2, s2) \<Rightarrow>
              (case play_while fuel task (Suc loop_index) sched2 s2 of
                 (out, steps', sched3, s3) \<Rightarrow>
                   (out,
                    [Polled False, Logged (MsgLoopBegin (Suc loop_index))] @ steps @
                    [Logged (MsgLoopEnd (Suc loop_index))] @
                    (if gap task > 0 then [Slept LoopGap (gap task)] else []) @ steps',
                    sched3, s3)))))"

text \<open>The thread's body \<^verbatim>\<open>play_loop\<close> (lines 1036-1075): the start delay, the loop, and the
  \<^verbatim>\<open>finally\<close> block, which runs however the loop was left.\<close>

definition play_loop ::
  "nat \<Rightarrow> play_task \<Rightarrow> player_call list list \<Rightarrow> RecorderPlayer \<Rightarrow>
     outcome \<times> play_msg step list \<times> player_call list list \<times> RecorderPlayer" where
  "play_loop fuel task sched s =
     (case play_while fuel task 0 sched s of (out, steps, sched1, s1) \<Rightarrow>
        let head = (if delay task > 0
                    then [Logged (MsgDelay (delay task)), Slept StartDelay (delay task)]
                    else [])
        in if out = OutOfFuel then (out, head @ steps, sched1, s1)
           else (out, head @ steps @ [Ended], sched1, s1\<lparr>is_playing := False\<rparr>))"

subsection \<open>The replay the specification describes\<close>




section \<open>Marker clicker (classes ClickRunner and ClickerPage)\<close>

text \<open>The dataclasses \<^verbatim>\<open>Marker\<close> and \<^verbatim>\<open>ClickConfig\<close>. The button is whatever was stored:
  the editor stores \<^verbatim>\<open>"left"\<close> or \<^verbatim>\<open>"right"\<close>, a loaded document any value.\<close>

record Marker =
  m_id :: int
  m_x :: int
  m_y :: int
  m_button :: pyval
  m_interval :: real

record ClickConfig =
  cfg_loops :: int
  cfg_delay :: real

text \<open>
  Log lines of the clicker, by meaning:
  \<^item> \<open>MsgNoMarkers\<close>: "no marker coordinates" (line 220);
  \<^item> \<open>MsgStartDelay d\<close>: "starting after a delay of d seconds" (line 231);
  \<^item> \<open>MsgRoundBegin n\<close>, \<open>MsgRoundEnd n\<close>: "round n begins / ends" (lines 237, 246);
  \<^item> \<open>MsgClicked id left x y\<close>: "clicked marker id (left or right button) at (x, y)"
    (line 244);
  \<^item> \<open>MsgClickingDone\<close>: "clicking finished" (line 247);
  \<^item> \<open>MsgMarkerAdded id\<close>, \<open>MsgMarkersCleared\<close>, \<open>MsgConfigLoaded\<close>: lines 625, 650, 831.
\<close>

datatype click_msg =
    MsgNoMarkers
  | MsgStartDelay real
  | MsgRoundBegin nat
  | MsgRoundEnd nat
  | MsgClicked int bool int int
  | MsgClickingDone
  | MsgMarkerAdded int
  | MsgMarkersCleared
  | MsgConfigLoaded

text \<open>
  A \<^verbatim>\<open>List[Marker]\<close> is a list of references to \<^verbatim>\<open>Marker\<close> objects, and the objects are
  mutable: the page's list and the list handed to a run may hold the same objects. So a
  marker list is a list of addresses, and the objects live in a store, \<open>heap\<close>, on the
  page. \<open>next_ref\<close> is the address the next \<^verbatim>\<open>Marker(...)\<close> gets.
\<close>

record ClickRunner =
  stop_event :: bool
  is_running :: bool
  runner_log :: "click_msg list"
  click_threads :: "(nat list \<times> ClickConfig) list"

text \<open>\<^verbatim>\<open>ClickRunner.start\<close> (lines 218-254) and \<^verbatim>\<open>ClickRunner.stop\<close>; the thread's body is
  \<open>click_worker\<close> below.\<close>

definition runner_start :: "nat list \<Rightarrow> ClickConfig \<Rightarrow> ClickRunner \<Rightarrow> bool \<times> ClickRunner" where
  "runner_start ms cfg r =
     (if ms = [] then (False, r\<lparr>runner_log := runner_log r @ [MsgNoMarkers]\<rparr>)
      else if is_running r then (False, r)
      else (True, r\<lparr>stop_event := False, is_running := True,
                      click_threads := click_threads r @ [(ms, cfg)]\<rparr>))"

definition runner_stop :: "ClickRunner \<Rightarrow> ClickRunner" where
  "runner_stop r = r\<lparr>stop_event := True\<rparr>"

text \<open>
  The page, without its widgets. A Tk variable holds the value last stored in it.
  \<open>new_pos\<close> is where the window geometry puts a new marker (lines 617-618); \<open>notified\<close>
  counts the calls of \<^verbatim>\<open>_notify_hotkeys_changed\<close>.
\<close>

record ClickerPage =
  markers :: "nat list"
  heap :: "nat \<Rightarrow> Marker"
  next_ref :: nat
  runner :: ClickRunner
  var_loops :: pyval
  var_delay :: pyval
  hotkeys :: "(string \<times> pyval) list"
  notified :: nat
  page_log :: "click_msg list"
  new_pos :: "int \<times> int"

text \<open>\<^verbatim>\<open>_refresh\<close> (lines 591-595): the markers of the page's list are renumbered from 1.\<close>

fun renumber :: "nat list \<Rightarrow> int \<Rightarrow> (nat \<Rightarrow> Marker) \<Rightarrow> (nat \<Rightarrow> Marker)" where
  "renumber [] i h = h"
| "renumber (r # rs) i h = renumber rs (i + 1) (h(r := (h r)\<lparr>m_id := i\<rparr>))"

definition refresh :: "ClickerPage \<Rightarrow> ClickerPage" where
  "refresh p = p\<lparr>heap := renumber (markers p) 1 (heap p)\<rparr>"

definition page_logged :: "click_msg \<Rightarrow> ClickerPage \<Rightarrow> ClickerPage" where
  "page_logged m p = p\<lparr>page_log := page_log p @ [m]\<rparr>"

text \<open>\<^verbatim>\<open>add_marker\<close> (lines 615-625) and \<^verbatim>\<open>clear_markers\<close> (lines 641-650).\<close>

definition add_marker :: "ClickerPage \<Rightarrow> ClickerPage" where
  "add_marker p =
     (let mid = int (length (markers p)) + 1;
          m = \<lparr>m_id = mid, m_x = fst (new_pos p), m_y = snd (new_pos p),
               m_button = PStr ''left'', m_interval = 2 / 10\<rparr>
      in page_logged (MsgMarkerAdded mid)
           (refresh (p\<lparr>markers := markers p @ [next_ref p],
                       heap := (heap p)(next_ref p := m),
                       next_ref := Suc (next_ref p)\<rparr>)))"

definition clear_markers :: "ClickerPage \<Rightarrow> ClickerPage" where
  "clear_markers p = page_logged MsgMarkersCleared (refresh (p\<lparr>markers := []\<rparr>))"

text \<open>Python's \<^verbatim>\<open>xs[i]\<close>: a negative index counts from the end, out of range raises
  IndexError.\<close>

definition py_nth :: "'a list \<Rightarrow> int \<Rightarrow> 'a option" where
  "py_nth xs i =
     (let n = int (length xs); j = (if i < 0 then n + i else i)
      in if 0 \<le> j \<and> j < n then Some (xs ! nat j) else None)"

text \<open>
  How Python reads a string as a number, and how Tk reads a variable back, are not part of
  the program: \<^verbatim>\<open>int(s)\<close> and \<^verbatim>\<open>float(s)\<close> on strings (\<open>None\<close>: ValueError) and
  \<^verbatim>\<open>IntVar.get()\<close> and \<^verbatim>\<open>DoubleVar.get()\<close> (\<open>None\<close>: TclError) are parameters. \<^verbatim>\<open>int\<close> of a
  number truncates toward zero.
\<close>

record readers =
  read_int :: "string \<Rightarrow> int option"
  read_float :: "string \<Rightarrow> real option"
  tk_getint :: "pyval \<Rightarrow> int option"
  tk_getdouble :: "pyval \<Rightarrow> real option"

definition trunc :: "real \<Rightarrow> int" where
  "trunc r = (if 0 \<le> r then \<lfloor>r\<rfloor> else \<lceil>r\<rceil>)"

text \<open>The label of the left button in the editor's combo box (line 746), two Chinese
  characters, as its UTF-8 bytes.\<close>

definition left_label :: string where
  "left_label = [CHR 0xE5, CHR 0xB7, CHR 0xA6, CHR 0xE9, CHR 0x94, CHR 0xAE]"

text \<open>
  \<^verbatim>\<open>_commit_editor\<close> (lines 733-757). \<open>shown\<close> is the number in the row's first column. Every
  exception of the \<^verbatim>\<open>try\<close> block is swallowed; the \<^verbatim>\<open>finally\<close> block refreshes. The marker
  is changed in place, in the store.
\<close>

definition set_marker :: "nat \<Rightarrow> (Marker \<Rightarrow> Marker) \<Rightarrow> ClickerPage \<Rightarrow> ClickerPage" where
  "set_marker r f p = p\<lparr>heap := (heap p)(r := f (heap p r))\<rparr>"

definition commit_editor :: "readers \<Rightarrow> int \<Rightarrow> string \<Rightarrow> string \<Rightarrow> ClickerPage \<Rightarrow> ClickerPage" where
  "commit_editor rd shown col_name new_val p =
     refresh
       (case py_nth (markers p) (shown - 1) of
          None \<Rightarrow> p
        | Some r \<Rightarrow>
            if col_name = ''x'' then
              (case read_float rd new_val of
                 None \<Rightarrow> p | Some v \<Rightarrow> set_marker r (\<lambda>m. m\<lparr>m_x := trunc v\<rparr>) p)
            else if col_name = ''y'' then
              (case read_float rd new_val of
                 None \<Rightarrow> p | Some v \<Rightarrow> set_marker r (\<lambda>m. m\<lparr>m_y := trunc v\<rparr>) p)
            else if col_name = ''btn'' then
              set_marker r
                (\<lambda>m. m\<lparr>m_button := (if new_val = left_label then PStr ''left'' else PStr ''right'')\<rparr>) p
            else if col_name = ''interval'' then
              (case read_float rd new_val of
                 None \<Rightarrow> p
               | Some iv \<Rightarrow>
                   set_marker r (\<lambda>m. m\<lparr>m_interval := (if iv < 1 / 100 then 1 / 100 else iv)\<rparr>) p)
            else p)"

text \<open>\<^verbatim>\<open>toggle_start\<close> (lines 770-777). \<^verbatim>\<open>self.markers.copy()\<close> is a new list of the same
  references.\<close>

definition toggle_start :: "readers \<Rightarrow> ClickerPage \<Rightarrow> ClickerPage" where
  "toggle_start rd p =
     (if is_running (runner p) then p\<lparr>runner := runner_stop (runner p)\<rparr>
      else (case tk_getint rd (var_loops p) of
          None \<Rightarrow> p
        | Some lp \<Rightarrow> (case tk_getdouble rd (var_delay p) of
            None \<Rightarrow> p
          | Some dl \<Rightarrow>
              p\<lparr>runner := snd (runner_start (markers p) \<lparr>cfg_loops = lp, cfg_delay = dl\<rparr> (runner p))\<rparr>)))"

subsection \<open>Loading a marker configuration\<close>

text \<open>Python's truth test, \<^verbatim>\<open>d.get(k)\<close> (AttributeError on anything but a dictionary; the
  result is \<open>None\<close> when the key is absent, so that the caller's default applies),
  \<^verbatim>\<open>int(v)\<close> and \<^verbatim>\<open>float(v)\<close>.\<close>

fun truthy :: "pyval \<Rightarrow> bool" where
  "truthy PNone = False"
| "truthy (PNum r) = (r \<noteq> 0)"
| "truthy (PStr s) = (s \<noteq> [])"
| "truthy (PList vs) = (vs \<noteq> [])"
| "truthy (PDict kvs) = (kvs \<noteq> [])"

fun py_get :: "pyval \<Rightarrow> string \<Rightarrow> py_error + pyval option" where
  "py_get (PDict kvs) k = Inr (map_of kvs k)"
| "py_get _ k = Inl AttributeError"

fun py_int :: "readers \<Rightarrow> pyval \<Rightarrow> py_error + int" where
  "py_int rd (PNum r) = Inr (trunc r)"
| "py_int rd (PStr s) = (case read_int rd s of None \<Rightarrow> Inl ValueError | Some i \<Rightarrow> Inr i)"
| "py_int rd _ = Inl TypeError"

fun py_float :: "readers \<Rightarrow> pyval \<Rightarrow> py_error + real" where
  "py_float rd (PNum r) = Inr r"
| "py_float rd (PStr s) = (case read_float rd s of None \<Rightarrow> Inl ValueError | Some r \<Rightarrow> Inr r)"
| "py_float rd _ = Inl TypeError"

text \<open>
  A method that may raise after it has changed the page answers the exception, if any, and
  the page as it stands at that moment.

  The body of the loop of lines 821-829, for one entry \<open>m\<close> of the document's marker list:
  a marker is added with the defaults, then its fields are overwritten one by one.
\<close>

definition load_marker :: "readers \<Rightarrow> pyval \<Rightarrow> ClickerPage \<Rightarrow> py_error option \<times> ClickerPage" where
  "load_marker rd m p =
     (let p0 = add_marker p; r = last (markers p0) in
      case py_get m ''x'' of Inl e \<Rightarrow> (Some e, p0) | Inr vx \<Rightarrow>
      case (case vx of None \<Rightarrow> Inr (m_x (heap p0 r)) | Some v \<Rightarrow> py_int rd v) of
        Inl e \<Rightarrow> (Some e, p0) | Inr x \<Rightarrow>
      let p1 = set_marker r (\<lambda>mm. mm\<lparr>m_x := x\<rparr>) p0 in
      case py_get m ''y'' of Inl e \<Rightarrow> (Some e, p1) | Inr vy \<Rightarrow>
      case (case vy of None \<Rightarrow> Inr (m_y (heap p1 r)) | Some v \<Rightarrow> py_int rd v) of
        Inl e \<Rightarrow> (Some e, p1) | Inr y \<Rightarrow>
      let p2 = set_marker r (\<lambda>mm. mm\<lparr>m_y := y\<rparr>) p1 in
      case py_get m ''button'' of Inl e \<Rightarrow> (Some e, p2) | Inr vb \<Rightarrow>
      let p3 = set_marker r
                 (\<lambda>mm. mm\<lparr>m_button := (case vb of None \<Rightarrow> m_button mm | Some v \<Rightarrow> v)\<rparr>) p2 in
      case py_get m ''interval'' of Inl e \<Rightarrow> (Some e, p3) | Inr vi \<Rightarrow>
      case (case vi of None \<Rightarrow> Inr (m_interval (heap p3 r)) | Some v \<Rightarrow> py_float rd v) of
        Inl e \<Rightarrow> (Some e, p3) | Inr iv \<Rightarrow>
      (None, set_marker r (\<lambda>mm. mm\<lparr>m_interval := iv\<rparr>) p3))"

fun load_markers :: "readers \<Rightarrow> pyval list \<Rightarrow> ClickerPage \<Rightarrow> py_error option \<times> ClickerPage" where
  "load_markers rd [] p = (None, p)"
| "load_markers rd (m # ms) p =
     (case load_marker rd m p of
        (Some e, p1) \<Rightarrow> (Some e, p1)
      | (None, p1) \<Rightarrow> load_markers rd ms p1)"

text \<open>Lines 813-818: the hotkeys of the document, when it has any.\<close>

definition load_hotkeys :: "pyval \<Rightarrow> ClickerPage \<Rightarrow> py_error option \<times> ClickerPage" where
  "load_hotkeys hk p =
     (if \<not> truthy hk then (None, p)
      else case py_get hk ''start_stop'' of Inl e \<Rightarrow> (Some e, p) | Inr v1 \<Rightarrow>
        let p1 = (case v1 of
                    None \<Rightarrow> p
                  | Some v \<Rightarrow> if truthy v
                      then p\<lparr>hotkeys := AList.update ''start_stop'' v (hotkeys p)\<rparr> else p)
        in case py_get hk ''add_marker'' of Inl e \<Rightarrow> (Some e, p1) | Inr v2 \<Rightarrow>
          (case v2 of
             None \<Rightarrow> (None, p1)
           | Some v \<Rightarrow>
               if \<not> truthy v then (None, p1)
               else (case map_of (hotkeys p1) ''start_stop'' of
                   None \<Rightarrow> (Some KeyError, p1)
                 | Some cur \<Rightarrow>
                     if v \<noteq> cur
                     then (None, p1\<lparr>hotkeys := AList.update ''add_marker'' v (hotkeys p1)\<rparr>)
                     else (None, p1))))"

text \<open>
  \<^verbatim>\<open>load_config_file\<close> (lines 803-831), from the parsed document on (a file that is not
  JSON makes \<^verbatim>\<open>json.load\<close> raise before the page is touched). The markers are cleared
  first; then the parameters, the hotkeys and the markers are read from the document.
\<close>

definition load_config_file :: "readers \<Rightarrow> pyval \<Rightarrow> ClickerPage \<Rightarrow> py_error option \<times> ClickerPage" where
  "load_config_file rd data p =
     (let p0 = clear_markers p in
      case py_get data ''config'' of Inl e \<Rightarrow> (Some e, p0) | Inr c \<Rightarrow>
      let cfg = (case c of None \<Rightarrow> PDict [] | Some v \<Rightarrow> v) in
      case py_get cfg ''loops'' of Inl e \<Rightarrow> (Some e, p0) | Inr lp \<Rightarrow>
      let p1 = p0\<lparr>var_loops := (case lp of None \<Rightarrow> PNum 1 | Some v \<Rightarrow> v)\<rparr> in
      case py_get cfg ''delay'' of Inl e \<Rightarrow> (Some e, p1) | Inr dl \<Rightarrow>
      let p2 = p1\<lparr>var_delay := (case dl of None \<Rightarrow> PNum 0 | Some v \<Rightarrow> v)\<rparr> in
      case py_get data ''hotkeys'' of Inl e \<Rightarrow> (Some e, p2) | Inr h \<Rightarrow>
      case load_hotkeys (case h of None \<Rightarrow> PNone | Some v \<Rightarrow> v) p2 of
        (Some e, p3) \<Rightarrow> (Some e, p3)
      | (None, p3) \<Rightarrow>
      let p4 = p3\<lparr>notified := Suc (notified p3)\<rparr> in
      case py_get data ''markers'' of Inl e \<Rightarrow> (Some e, p4) | Inr ml \<Rightarrow>
      case py_iter (case ml of None \<Rightarrow> PList [] | Some v \<Rightarrow> v) of
        Inl e \<Rightarrow> (Some e, p4) | Inr ms \<Rightarrow>
      case load_markers rd ms p4 of
        (Some e, p5) \<Rightarrow> (Some e, p5)
      | (None, p5) \<Rightarrow> (None, page_logged MsgConfigLoaded (refresh p5)))"

subsection \<open>The clicking thread\<close>

text \<open>
  The calls the other threads of the process make on the page while the thread runs, placed
  at the thread's reads of the stop flag as for the player.
\<close>

datatype page_call =
    CallToggleStart
  | CallRunnerStop
  | CallRunnerStart "nat list" ClickConfig
  | CallCommitEditor int string string
  | CallAddMarker
  | CallClearMarkers

fun do_page_call :: "readers \<Rightarrow> page_call \<Rightarrow> ClickerPage \<Rightarrow> ClickerPage" where
  "do_page_call rd CallToggleStart p = toggle_start rd p"
| "do_page_call rd CallRunnerStop p = p\<lparr>runner := runner_stop (runner p)\<rparr>"
| "do_page_call rd (CallRunnerStart ms cfg) p = p\<lparr>runner := snd (runner_start ms cfg (runner p))\<rparr>"
| "do_page_call rd (CallCommitEditor shown col_name new_val) p = commit_editor rd shown col_name new_val p"
| "do_page_call rd CallAddMarker p = add_marker p"
| "do_page_call rd CallClearMarkers p = clear_markers p"

definition click_is_set ::
  "readers \<Rightarrow> page_call list list \<Rightarrow> ClickerPage \<Rightarrow> bool \<times> page_call list list \<times> ClickerPage" where
  "click_is_set rd sched p =
     (case sched of
        [] \<Rightarrow> (stop_event (runner p), [], p)
      | cs # rest \<Rightarrow>
          (stop_event (runner (fold (do_page_call rd) cs p)), rest, fold (do_page_call rd) cs p))"

text \<open>The \<^verbatim>\<open>for m in markers\<close> loop (lines 238-245); the first component tells whether the
  loop was left by \<^verbatim>\<open>break\<close>. The marker's fields are read from the store when its turn
  comes.\<close>

definition click_marker :: "Marker \<Rightarrow> click_msg step list" where
  "click_marker m =
     [Issued (SetPosition (PNum (of_int (m_x m))) (PNum (of_int (m_y m)))),
      Issued (Click (if m_button m = PStr ''left'' then LeftButton else RightButton)),
      Logged (MsgClicked (m_id m) (m_button m = PStr ''left'') (m_x m) (m_y m)),
      Slept PostClick (max (1 / 100) (min 5 (m_interval m)))]"

fun click_markers ::
  "readers \<Rightarrow> nat list \<Rightarrow> page_call list list \<Rightarrow> ClickerPage \<Rightarrow>
     bool \<times> click_msg step list \<times> page_call list list \<times> ClickerPage" where
  "click_markers rd [] sched p = (False, [], sched, p)"
| "click_markers rd (r # rs) sched p =
     (case click_is_set rd sched p of (stopped, sched1, p1) \<Rightarrow>
        if stopped then (True, [Polled True], sched1, p1)
        else (case click_markers rd rs sched1 p1 of (broke, steps, sched2, p2) \<Rightarrow>
                (broke, [Polled False] @ click_marker (heap p1 r) @ steps, sched2, p2)))"

text \<open>The \<^verbatim>\<open>while\<close> loop (lines 233-247), with fuel as for the player. After a \<^verbatim>\<open>break\<close> the
  round's end is logged and the loop condition is tested again.\<close>

fun click_while ::
  "readers \<Rightarrow> nat \<Rightarrow> nat list \<Rightarrow> ClickConfig \<Rightarrow> nat \<Rightarrow> page_call list list \<Rightarrow> ClickerPage \<Rightarrow>
     outcome \<times> click_msg step list \<times> page_call list list \<times> ClickerPage" where
  "click_while rd 0 ms cfg loop_idx sched p = (OutOfFuel, [], sched, p)"
| "click_while rd (Suc fuel) ms cfg loop_idx sched p =
     (if \<not> more_loops (cfg_loops cfg) loop_idx
      then (Finished, [Logged MsgClickingDone], sched, p)
      else (case click_is_set rd sched p of (stopped, sched1, p1) \<Rightarrow>
        if stopped then (Finished, [Polled True, Logged MsgClickingDone], sched1, p1)
        else (case click_markers rd ms sched1 p1 of (broke, steps, sched2, p2) \<Rightarrow>
          (case click_while rd fuel ms cfg (Suc loop_idx) sched2 p2 of
             (out, steps', sched3, p3) \<Rightarrow>
               (out,
                [Polled False, Logged (MsgRoundBegin (Suc loop_idx))] @ steps @
                [Logged (MsgRoundEnd (Suc loop_idx))] @ steps',
                sched3, p3)))))"

text \<open>The thread's body \<^verbatim>\<open>worker\<close> (lines 228-251).\<close>

definition click_worker ::
  "readers \<Rightarrow> nat \<Rightarrow> nat list \<Rightarrow> ClickConfig \<Rightarrow> page_call list list \<Rightarrow> ClickerPage \<Rightarrow>
     outcome \<times> click_msg step list \<times> page_call list list \<times> ClickerPage" where
  "click_worker rd fuel ms cfg sched p =
     (case click_while rd fuel ms cfg 0 sched p of (out, steps, sched1, p1) \<Rightarrow>
        let head = (if cfg_delay cfg > 0
                    then [Logged (MsgStartDelay (cfg_delay cfg)),
                          Slept StartDelay (max 0 (cfg_delay cfg))]
                    else [])
        in if out = OutOfFuel then (out, head @ steps, sched1, p1)
           else (out, head @ steps @ [Ended],
                 sched1, p1\<lparr>runner := (runner p1)\<lparr>is_running := False\<rparr>\<rparr>))"

section \<open>Hotkey capture (RecorderPage, ClickerPage and MainApp)\<close>

text \<open>
  The attributes that \<^verbatim>\<open>RecorderPage\<close> and \<^verbatim>\<open>ClickerPage\<close> declare alike for their hotkeys
  (lines 271-280 and 1108-1117), and that their methods \<^verbatim>\<open>_begin_capture\<close>,
  \<^verbatim>\<open>_end_capture\<close> and \<^verbatim>\<open>_is_hotkey_in_use\<close>, the same text in both classes, work on.
  \<open>hk_table\<close> is \<^verbatim>\<open>self.hotkeys\<close>, from action name to chord; \<open>cap_listener\<close> tells whether
  the page's key listener is running; \<open>cap_pressed\<close> holds the modifier tokens held down.

  Log lines, by meaning: "setting the hotkey of this action, press the keys" (line 461),
  "conflict: this chord is taken, try again" (line 515), "the hotkey of this action is now
  this chord" (line 521), "cancelled" (line 535).
\<close>

datatype hk_msg =
    MsgCapturing string
  | MsgConflict string
  | MsgHotkeySet string string
  | MsgCaptureCancelled

record HotkeyPage =
  hk_table :: "(string \<times> pyval) list"
  capture_action :: "string option"
  cap_listener :: bool
  cap_pressed :: "string list"
  buttons_enabled :: bool
  hk_log :: "hk_msg list"

text \<open>The application: its two pages and whether the global hotkey listener of its
  \<^verbatim>\<open>GlobalHotkeyManager\<close> is installed. Which chords the manager registers is not modelled.\<close>

datatype page_id = RecPage | ClkPage

record App =
  page_rec :: HotkeyPage
  page_clk :: HotkeyPage
  global_listener :: bool
  refreshes :: nat

fun page :: "page_id \<Rightarrow> App \<Rightarrow> HotkeyPage" where
  "page RecPage a = page_rec a"
| "page ClkPage a = page_clk a"

fun put_page :: "page_id \<Rightarrow> HotkeyPage \<Rightarrow> App \<Rightarrow> App" where
  "put_page RecPage p a = a\<lparr>page_rec := p\<rparr>"
| "put_page ClkPage p a = a\<lparr>page_clk := p\<rparr>"

fun other_page :: "page_id \<Rightarrow> page_id" where
  "other_page RecPage = ClkPage"
| "other_page ClkPage = RecPage"

text \<open>The rows of a page's hotkey tab (lines 427 and 1228): the keys of
  \<^verbatim>\<open>_cap_label_vars\<close>.\<close>

fun label_rows :: "page_id \<Rightarrow> string list" where
  "label_rows RecPage = [''toggle_record'', ''toggle_play'']"
| "label_rows ClkPage = [''start_stop'', ''add_marker'']"

text \<open>\<^verbatim>\<open>MainApp.stop_hotkeys\<close> and \<^verbatim>\<open>MainApp.refresh_hotkeys\<close> (lines 1561-1583), as far as the
  listener goes.\<close>

definition stop_hotkeys :: "App \<Rightarrow> App" where
  "stop_hotkeys a = a\<lparr>global_listener := False\<rparr>"

definition refresh_hotkeys :: "App \<Rightarrow> App" where
  "refresh_hotkeys a = a\<lparr>global_listener := True, refreshes := Suc (refreshes a)\<rparr>"

text \<open>
  \<^verbatim>\<open>_begin_capture\<close> (lines 447-540 and 1248-1341). The guard looks at the page's own
  \<^verbatim>\<open>_capture_action\<close>. Line 459 looks the action up in the label rows and in the hotkeys and
  appends a string to the chord: KeyError or TypeError there leaves the page as the lines
  before have made it.
\<close>

datatype capture_reply = ReplyBusy | ReplyStarted | ReplyRaised py_error

definition begin_capture :: "page_id \<Rightarrow> string \<Rightarrow> App \<Rightarrow> capture_reply \<times> App" where
  "begin_capture pid action a =
     (if capture_action (page pid a) \<noteq> None then (ReplyBusy, a)
      else
        let a1 = stop_hotkeys (put_page pid ((page pid a)\<lparr>capture_action := Some action\<rparr>) a);
            a2 = put_page pid ((page pid a1)\<lparr>buttons_enabled := False\<rparr>) a1
        in if action \<notin> set (label_rows pid) then (ReplyRaised KeyError, a2)
           else (case map_of (hk_table (page pid a2)) action of
               None \<Rightarrow> (ReplyRaised KeyError, a2)
             | Some (PStr chord) \<Rightarrow>
                 (ReplyStarted,
                  put_page pid ((page pid a2)\<lparr>hk_log := hk_log (page pid a2) @ [MsgCapturing action],
                                               cap_pressed := [],
                                               cap_listener := True\<rparr>) a2)
             | Some _ \<Rightarrow> (ReplyRaised TypeError, a2)))"

text \<open>\<^verbatim>\<open>MainApp.get_all_hotkeys(except_page=self)\<close> (lines 1585-1591): the set of the other
  page's chords; building a set raises TypeError on a list or a dictionary.\<close>

fun hashable :: "pyval \<Rightarrow> bool" where
  "hashable (PList vs) = False"
| "hashable (PDict kvs) = False"
| "hashable v = True"

definition get_all_hotkeys :: "page_id \<Rightarrow> App \<Rightarrow> py_error + pyval list" where
  "get_all_hotkeys except_page a =
     (let vs = map snd (hk_table (page (other_page except_page) a))
      in if list_all hashable vs then Inr vs else Inl TypeError)"

text \<open>\<^verbatim>\<open>_is_hotkey_in_use\<close> (lines 563-572 and 1362-1369).\<close>

definition is_hotkey_in_use :: "page_id \<Rightarrow> string \<Rightarrow> string option \<Rightarrow> App \<Rightarrow> py_error + bool" where
  "is_hotkey_in_use pid combo exclude_action a =
     (if list_ex (\<lambda>kv. Some (fst kv) \<noteq> exclude_action \<and> snd kv = PStr combo)
           (hk_table (page pid a))
      then Inr True
      else (case get_all_hotkeys pid a of
          Inl e \<Rightarrow> Inl e
        | Inr others \<Rightarrow> Inr (PStr combo \<in> set others)))"

text \<open>\<^verbatim>\<open>_end_capture\<close> (lines 542-561 and 1343-1360). Both \<^verbatim>\<open>_notify_hotkeys_changed\<close> and the
  last line call \<^verbatim>\<open>refresh_hotkeys\<close>.\<close>

definition end_capture :: "page_id \<Rightarrow> App \<Rightarrow> App" where
  "end_capture pid a =
     refresh_hotkeys (refresh_hotkeys
       (put_page pid ((page pid a)\<lparr>cap_listener := False, cap_pressed := [],
                                   buttons_enabled := True, capture_action := None\<rparr>) a))"

text \<open>
  The keys the listener reports, by what lines 465-506 make of them: a modifier with its
  token, a key with a token (a printable character, lower-cased, or \<^verbatim>\<open><fN>\<close>), Escape, or
  any other key. The chord is the held modifiers in the order ctrl, alt, shift, cmd,
  then the token, joined by \<^verbatim>\<open>+\<close> (lines 510-512).
\<close>

datatype key = ModifierKey string | TokenKey string | EscKey | OtherKey

definition mod_order :: "string list" where
  "mod_order = [''<ctrl>'', ''<alt>'', ''<shift>'', ''<cmd>'']"

fun join_plus :: "string list \<Rightarrow> string" where
  "join_plus [] = []"
| "join_plus [x] = x"
| "join_plus (x # y # ys) = x @ ''+'' @ join_plus (y # ys)"

definition make_combo :: "string list \<Rightarrow> string \<Rightarrow> string" where
  "make_combo pressed keystr =
     join_plus (filter (\<lambda>m. m \<in> set pressed) mod_order @ [keystr])"

text \<open>
  The listener's callbacks \<^verbatim>\<open>on_press\<close> (lines 493-523) and \<^verbatim>\<open>on_release\<close> (lines 525-537).
  They run only while the page's listener does, which is between a \<^verbatim>\<open>_begin_capture\<close> that
  went through and the \<^verbatim>\<open>_end_capture\<close> after it; then \<^verbatim>\<open>_capture_action\<close> is set.
\<close>

definition on_press :: "page_id \<Rightarrow> key \<Rightarrow> App \<Rightarrow> py_error option \<times> App" where
  "on_press pid k a =
     (case (cap_listener (page pid a), capture_action (page pid a)) of
        (True, Some act) \<Rightarrow>
          (case k of
             ModifierKey tok \<Rightarrow>
               (None, put_page pid ((page pid a)\<lparr>cap_pressed := List.insert tok (cap_pressed (page pid a))\<rparr>) a)
           | TokenKey keystr \<Rightarrow>
               (let combo = make_combo (cap_pressed (page pid a)) keystr in
                case is_hotkey_in_use pid combo (Some act) a of
                  Inl e \<Rightarrow> (Some e, a)
                | Inr True \<Rightarrow>
                    (None, put_page pid ((page pid a)\<lparr>hk_log := hk_log (page pid a) @ [MsgConflict combo],
                                                       cap_pressed := []\<rparr>) a)
                | Inr False \<Rightarrow>
                    (None, end_capture pid
                       (put_page pid
                          ((page pid a)\<lparr>hk_table := AList.update act (PStr combo) (hk_table (page pid a)),
                                        hk_log := hk_log (page pid a) @ [MsgHotkeySet act combo]\<rparr>) a)))
           | _ \<Rightarrow> (None, a))
      | _ \<Rightarrow> (None, a))"

definition on_release :: "page_id \<Rightarrow> key \<Rightarrow> App \<Rightarrow> App" where
  "on_release pid k a =
     (case (cap_listener (page pid a), capture_action (page pid a)) of
        (True, Some act) \<Rightarrow>
          (case k of
             ModifierKey tok \<Rightarrow>
               put_page pid ((page pid a)\<lparr>cap_pressed := removeAll tok (cap_pressed (page pid a))\<rparr>) a
           | EscKey \<Rightarrow>
               end_capture pid
                 (put_page pid ((page pid a)\<lparr>hk_log := hk_log (page pid a) @ [MsgCaptureCancelled]\<rparr>) a)
           | _ \<Rightarrow> a)
      | _ \<Rightarrow> a)"

text \<open>
  The first lines of \<^verbatim>\<open>import_state\<close> (lines 842-848 and 1471-1476), for a stored state
  whose \<^verbatim>\<open>hotkeys\<close> is the dictionary \<open>hk\<close>, as \<^verbatim>\<open>export_state\<close> writes it:
  \<^verbatim>\<open>self.hotkeys.update(hk)\<close>, with no check ("duplicates are dealt with by the main
  program; taken as they are here"). The lines after it do not touch the hotkeys.
\<close>

definition import_state_hotkeys :: "page_id \<Rightarrow> (string \<times> pyval) list \<Rightarrow> App \<Rightarrow> App" where
  "import_state_hotkeys pid hk a =
     put_page pid
       ((page pid a)\<lparr>hk_table := fold (\<lambda>kv. AList.update (fst kv) (snd kv)) hk (hk_table (page pid a))\<rparr>) a"

text \<open>Every chord of both tables, with its owner.\<close>

definition all_chords :: "App \<Rightarrow> pyval list" where
  "all_chords a = map snd (hk_table (page_rec a)) @ map snd (hk_table (page_clk a))"

definition chords_but :: "page_id \<Rightarrow> string \<Rightarrow> App \<Rightarrow> pyval list" where
  "chords_but pid act a =
     map snd (filter (\<lambda>kv. fst kv \<noteq> act) (hk_table (page pid a))) @
     map snd (hk_table (page (other_page pid) a))"

section \<open>Steps after an observed cancellation\<close>

text \<open>\<open>after_stop ok steps\<close>: every step that follows the first read of the flag that
  returned True satisfies \<open>ok\<close>. \<open>no_output\<close> holds of every step but a call of the
  controller (a pointer move, a press, release or click, a scroll, a key).\<close>

fun after_stop :: "('m step \<Rightarrow> bool) \<Rightarrow> 'm step list \<Rightarrow> bool" where
  "after_stop ok [] = True"
| "after_stop ok (Polled True # rest) = list_all ok rest"
| "after_stop ok (st # rest) = after_stop ok rest"

fun no_output :: "'m step \<Rightarrow> bool" where
  "no_output (Issued a) = False"
| "no_output st = True"

text \<open>\<open>calm\<close> holds of every step of the clicking thread but a call of the controller, a
  sleep and the log line that begins a round.\<close>

fun calm :: "click_msg step \<Rightarrow> bool" where
  "calm (Issued a) = False"
| "calm (Slept k d) = False"
| "calm (Logged (MsgRoundBegin n)) = False"
| "calm st = True"

section \<open>Sample data\<close>

text \<open>The recording of the spec's example: left button down at t = 0, up at t = 0.2, both
  at (10, 10); \<^verbatim>\<open>str(button)\<close> is \<^verbatim>\<open>Button.left\<close>.\<close>

definition mk_event :: "real \<Rightarrow> string \<Rightarrow> Event" where
  "mk_event tm ty =
     \<lparr>ev_t = PNum tm, ev_type = PStr ty, ev_x = PNone, ev_y = PNone, ev_dx = PNone,
      ev_dy = PNone, ev_button = PNone, ev_key = PNone\<rparr>"

definition down_up :: "Event list" where
  "down_up =
     [(mk_event 0 ''mouse_down'')\<lparr>ev_x := PNum 10, ev_y := PNum 10, ev_button := PStr ''Button.left''\<rparr>,
      (mk_event (2/10) ''mouse_up'')\<lparr>ev_x := PNum 10, ev_y := PNum 10, ev_button := PStr ''Button.left''\<rparr>]"

definition player :: "Event list \<Rightarrow> bool \<Rightarrow> RecorderPlayer" where
  "player evs playing =
     \<lparr>recording = evs, stop_play_event = False, is_playing = playing, rp_log = [], threads = []\<rparr>"


definition move_twice :: play_task where
  "move_twice =
     \<lparr>events_copy = [mk_event 0 ''mouse_move''], speed = 1, loops = 2, gap = 1, delay = 0\<rparr>"

text \<open>The spec's two markers, on a page whose runner is running a copy of its list; and
  readers that know the decimal strings used below.\<close>

definition two_markers :: "nat \<Rightarrow> Marker" where
  "two_markers =
     (\<lambda>r. \<lparr>m_id = 0, m_x = 0, m_y = 0, m_button = PNone, m_interval = 0\<rparr>)
       (0 := \<lparr>m_id = 1, m_x = 5, m_y = 5, m_button = PStr ''left'', m_interval = 2 / 10\<rparr>,
        1 := \<lparr>m_id = 2, m_x = 50, m_y = 50, m_button = PStr ''right'', m_interval = 1 / 10\<rparr>)"

definition clicker :: "bool \<Rightarrow> ClickerPage" where
  "clicker running =
     \<lparr>markers = [0, 1], heap = two_markers, next_ref = 2,
      runner = \<lparr>stop_event = False, is_running = running, runner_log = [], click_threads = []\<rparr>,
      var_loops = PNum 2, var_delay = PNum 0,
      hotkeys = [(''start_stop'', PStr ''<f7>''), (''add_marker'', PStr ''<f6>'')],
      notified = 0, page_log = [], new_pos = (370, 80)\<rparr>"

definition sample_readers :: readers where
  "sample_readers =
     \<lparr>read_int = (\<lambda>s. if s = ''99'' then Some 99 else None),
      read_float = (\<lambda>s. if s = ''99'' then Some 99
                         else if s = ''9.0'' then Some 9
                         else if s = ''0.0001'' then Some (1 / 10000) else None),
      tk_getint = (\<lambda>v. case v of PNum r \<Rightarrow> Some (trunc r) | _ \<Rightarrow> None),
      tk_getdouble = num_of\<rparr>"

definition two_rounds :: ClickConfig where
  "two_rounds = \<lparr>cfg_loops = 2, cfg_delay = 0\<rparr>"

text \<open>Documents: a marker entry with an interval of 9 seconds; a marker list whose only
  entry has \<^verbatim>\<open>"x": null\<close>; the same with an interval of 0.0001 seconds only; a recording
  whose second event has no \<^verbatim>\<open>type\<close>.\<close>

definition nine_doc :: pyval where
  "nine_doc = PDict [(''interval'', PNum 9)]"


definition tiny_doc :: pyval where
  "tiny_doc = PDict [(''markers'', PList [PDict [(''interval'', PNum (1 / 10000))]])]"


text \<open>The application as it starts, with the default hotkeys (lines 271-274 and
  1108-1111).\<close>

definition idle_page :: "(string \<times> pyval) list \<Rightarrow> HotkeyPage" where
  "idle_page tab =
     \<lparr>hk_table = tab, capture_action = None, cap_listener = False, cap_pressed = [],
      buttons_enabled = True, hk_log = []\<rparr>"

definition app0 :: App where
  "app0 =
     \<lparr>page_rec = idle_page [(''toggle_record'', PStr ''<f9>''), (''toggle_play'', PStr ''<f10>'')],
      page_clk = idle_page [(''start_stop'', PStr ''<f7>''), (''add_marker'', PStr ''<f6>'')],
      global_listener = True, refreshes = 0\<rparr>"

text \<open>The application while the clicker page captures a chord for \<^verbatim>\<open>start_stop\<close>.\<close>

definition clk_capturing :: App where
  "clk_capturing = snd (begin_capture ClkPage ''start_stop'' app0)"


section \<open>Starting a playback\<close>

text \<open>
  C8. \<^verbatim>\<open>start_playback\<close> answers (False, "no data") on an empty recording and
  (False, "already running") while a playback is in progress, in both cases leaving the
  whole player state as it was (no thread, same playing flag); otherwise it answers
  (True, "started"), the player is playing, exactly one thread has been added, and that
  thread holds a copy of the recorded events and the four parameters.
\<close>

theorem start_playback_results:
  "(recording s = [] \<longrightarrow>
      start_playback sp lp gp dl s = ((False, MsgNoData), s)) \<and>
   (recording s \<noteq> [] \<and> is_playing s \<longrightarrow>
      start_playback sp lp gp dl s = ((False, MsgAlreadyPlaying), s)) \<and>
   (recording s \<noteq> [] \<and> \<not> is_playing s \<longrightarrow>
      fst (start_playback sp lp gp dl s) = (True, MsgStartPlayback) \<and>
      is_playing (snd (start_playback sp lp gp dl s)) \<and>
      recording (snd (start_playback sp lp gp dl s)) = recording s \<and>
      threads (snd (start_playback sp lp gp dl s)) = threads s @
        [\<lparr>events_copy = recording s, speed = sp, loops = lp, gap = gp, delay = dl\<rparr>])"
  by (simp add: start_playback_def)

theorem start_playback_results_witness:
  "start_playback 2 1 0 0 (player [] False) = ((False, MsgNoData), player [] False) \<and>
   start_playback 2 1 0 0 (player down_up True) = ((False, MsgAlreadyPlaying), player down_up True) \<and>
   fst (start_playback 2 1 0 0 (player down_up False)) = (True, MsgStartPlayback) \<and>
   is_playing (snd (start_playback 2 1 0 0 (player down_up False))) \<and>
   threads (snd (start_playback 2 1 0 0 (player down_up False))) =
     [\<lparr>events_copy = down_up, speed = 2, loops = 1, gap = 0, delay = 0\<rparr>]"
  using start_playback_results [of "player [] False" 2 1 0 0]
    start_playback_results [of "player down_up True" 2 1 0 0]
    start_playback_results [of "player down_up False" 2 1 0 0]
  by (simp add: player_def down_up_def)

section \<open>The playback thread replays in recorded order\<close>







section \<open>The gap between rounds\<close>

text \<open>
  C7. The claim is that with \<open>n \<ge> 2\<close> rounds and a positive gap the thread sleeps the gap
  \<open>n - 1\<close> times, never after the last round. The thread sleeps it after every round
  (lines 1068-1070 stand inside the loop, with no test for a next round): with two rounds
  and a gap of one second it sleeps the gap twice, the second time after the last round
  has ended and before it reports the end.
\<close>

theorem gap_after_last_round:
  "play_loop 3 move_twice [] (player [mk_event 0 ''mouse_move''] True) =
     (Finished,
      [Polled False, Logged (MsgLoopBegin 1),
       Polled False, Slept EventWait 0, Issued (SetPosition PNone PNone),
       Logged (MsgLoopEnd 1), Slept LoopGap 1,
       Polled False, Logged (MsgLoopBegin 2),
       Polled False, Slept EventWait 0, Issued (SetPosition PNone PNone),
       Logged (MsgLoopEnd 2), Slept LoopGap 1,
       Logged MsgPlaybackDone, Ended],
      [], player [mk_event 0 ''mouse_move''] False)"
  by (simp add: play_loop_def move_twice_def numeral_3_eq_3 more_loops_def play_is_set_def
      player_def mk_event_def apply_event_def)

section \<open>Cancellation\<close>

lemma after_stop_append:
  "list_all (\<lambda>st. st \<noteq> Polled True) pre \<Longrightarrow> after_stop ok (pre @ rest) = after_stop ok rest"
proof (induction pre)
  case Nil
  then show ?case by simp
next
  case (Cons st pre)
  then show ?case by (cases st) auto
qed

lemma after_stop_snoc:
  "after_stop ok steps \<Longrightarrow> ok st \<Longrightarrow> after_stop ok (steps @ [st])"
proof (induction ok steps rule: after_stop.induct)
  case (1 ok)
  show ?case by (cases "(ok, [st])" rule: after_stop.cases) auto
qed auto

lemma play_events_after_stop:
  "play_events sp evs prev_t sched s = (ex, steps, sched', s') \<Longrightarrow>
     after_stop no_output steps \<and> (ex = Through \<longrightarrow> list_all (\<lambda>st. st \<noteq> Polled True) steps)"
proof (induction evs arbitrary: prev_t sched s ex steps sched' s')
  case Nil
  then show ?case by simp
next
  case (Cons ev evs)
  obtain stopped sched1 s1 where p: "play_is_set sched s = (stopped, sched1, s1)"
    by (cases "play_is_set sched s") auto
  show ?case
  proof (cases stopped)
    case True
    with Cons.prems p show ?thesis by auto
  next
    case False
    note ns = this
    show ?thesis
    proof (cases "num_of (ev_t ev)")
      case None
      with Cons.prems p ns show ?thesis by auto
    next
      case (Some tm)
      show ?thesis
      proof (cases "(tm - prev_t) / max sp (1 / 10 ^ 9) < 0")
        case True
        with Cons.prems p ns Some show ?thesis by (auto simp: Let_def)
      next
        case False
        note nneg = this
        show ?thesis
        proof (cases "apply_event ev")
          case (Inl e)
          with Cons.prems p ns Some nneg show ?thesis by (auto simp: Let_def)
        next
          case (Inr acts)
          obtain ex2 steps2 sched2 s2 where r: "play_events sp evs tm sched1 s1 = (ex2, steps2, sched2, s2)"
            by (cases "play_events sp evs tm sched1 s1") auto
          from Cons.IH [OF r] have ih1: "after_stop no_output steps2"
            and ih2: "ex2 = Through \<longrightarrow> list_all (\<lambda>st. st \<noteq> Polled True) steps2" by auto
          have pre: "list_all (\<lambda>st. st \<noteq> Polled True)
                ([Polled False, Slept EventWait ((tm - prev_t) / max sp (1 / 10 ^ 9))] @ map Issued acts)"
            by (simp add: list_all_iff)
          from Cons.prems p ns Some nneg Inr r
          have st: "steps = ([Polled False, Slept EventWait ((tm - prev_t) / max sp (1 / 10 ^ 9))] @ map Issued acts) @ steps2"
            and ex: "ex = ex2" by (auto simp: Let_def)
          have a: "after_stop no_output steps" 
            unfolding st using ih1 by (simp only: after_stop_append [OF pre])
          have b: "ex = Through \<longrightarrow> list_all (\<lambda>st. st \<noteq> Polled True) steps"
            unfolding st ex using ih2 pre by (auto simp: list_all_iff)
          from a b show ?thesis ..
        qed
      qed
    qed
  qed
qed


lemma play_while_after_stop:
  "play_while fuel task li sched s = (out, steps, sched', s') \<Longrightarrow> after_stop no_output steps"
proof (induction fuel arbitrary: li sched s out steps sched' s')
  case 0
  then show ?case by simp
next
  case (Suc fuel)
  show ?case
  proof (cases "more_loops (loops task) li")
    case False
    with Suc.prems show ?thesis by auto
  next
    case True
    note more = this
    obtain stopped sched1 s1 where p: "play_is_set sched s = (stopped, sched1, s1)"
      by (cases "play_is_set sched s") auto
    show ?thesis
    proof (cases stopped)
      case True
      with Suc.prems more p show ?thesis by auto
    next
      case False
      note ns = this
      obtain ex rsteps sched2 s2 where
        r: "play_events (speed task) (events_copy task) 0 sched1 s1 = (ex, rsteps, sched2, s2)"
        by (cases "play_events (speed task) (events_copy task) 0 sched1 s1") auto
      note ev = play_events_after_stop [OF r]
      show ?thesis
      proof (cases ex)
        case Through
        obtain out3 steps3 sched3 s3 where
          w: "play_while fuel task (Suc li) sched2 s2 = (out3, steps3, sched3, s3)"
          by (cases "play_while fuel task (Suc li) sched2 s2") auto
        let ?pre = "[Polled False, Logged (MsgLoopBegin (Suc li))] @ rsteps @
                    [Logged (MsgLoopEnd (Suc li))] @
                    (if gap task > 0 then [Slept LoopGap (gap task)] else [])"
        from Suc.prems more p ns r Through w have st: "steps = ?pre @ steps3" by auto
        from ev Through have pre: "list_all (\<lambda>st. st \<noteq> Polled True) ?pre"
          by (auto simp: list_all_iff)
        show ?thesis unfolding st using Suc.IH [OF w] by (simp only: after_stop_append [OF pre])
      next
        case Return
        with Suc.prems more p ns r ev show ?thesis by auto
      next
        case (Raise e)
        with Suc.prems more p ns r ev show ?thesis by auto
      qed
    qed
  qed
qed

lemma play_loop_after_stop:
  "after_stop no_output (fst (snd (play_loop fuel task sched s)))"
proof -
  obtain out steps sched1 s1 where w: "play_while fuel task 0 sched s = (out, steps, sched1, s1)"
    by (cases "play_while fuel task 0 sched s") auto
  let ?head = "if delay task > 0
               then [Logged (MsgDelay (delay task)), Slept StartDelay (delay task)] else []"
  have hd: "list_all (\<lambda>st. st \<noteq> Polled True) ?head" by simp
  have a: "after_stop no_output steps" by (rule play_while_after_stop [OF w])
  have b: "after_stop no_output (steps @ [Ended])" by (rule after_stop_snoc [OF a]) simp
  have c: "after_stop no_output (?head @ steps)"
    using a by (simp only: after_stop_append [OF hd])
  have d: "after_stop no_output (?head @ steps @ [Ended])"
    using b by (simp only: after_stop_append [OF hd])
  show ?thesis
    using c d by (simp add: play_loop_def w Let_def)
qed

lemma after_stop_all: "list_all ok steps \<Longrightarrow> after_stop ok steps"
  by (induction ok steps rule: after_stop.induct) auto

lemma after_stop_then_all:
  "after_stop ok steps \<Longrightarrow> list_all ok rest \<Longrightarrow> after_stop ok (steps @ rest)"
  by (induction ok steps rule: after_stop.induct) (auto intro: after_stop_all)

lemma after_stop_mono:
  "after_stop ok steps \<Longrightarrow> (\<And>st. ok st \<Longrightarrow> ok' st) \<Longrightarrow> after_stop ok' steps"
  by (induction ok steps rule: after_stop.induct) (auto simp: list_all_iff)

lemma calm_no_output: "calm st \<Longrightarrow> no_output st"
  by (cases st) auto

lemma runner_renumber [simp]: "runner (refresh p) = runner p"
  by (simp add: refresh_def)

lemma runner_commit_editor [simp]: "runner (commit_editor rd shown c v p) = runner p"
  by (simp add: commit_editor_def set_marker_def split: option.splits)

lemma runner_add_marker [simp]: "runner (add_marker p) = runner p"
  by (simp add: add_marker_def page_logged_def Let_def)

lemma runner_clear_markers [simp]: "runner (clear_markers p) = runner p"
  by (simp add: clear_markers_def page_logged_def)

lemma page_call_keeps_running:
  assumes "is_running (runner p)"
  shows "is_running (runner (do_page_call rd c p)) \<and>
         (stop_event (runner p) \<longrightarrow> stop_event (runner (do_page_call rd c p)))"
  using assms by (cases c) (auto simp: toggle_start_def runner_stop_def runner_start_def)

lemma page_calls_keep_running:
  assumes "is_running (runner p)"
  shows "is_running (runner (fold (do_page_call rd) cs p)) \<and>
         (stop_event (runner p) \<longrightarrow> stop_event (runner (fold (do_page_call rd) cs p)))"
  using assms
proof (induction cs arbitrary: p)
  case Nil
  then show ?case by simp
next
  case (Cons c cs)
  from page_call_keeps_running [OF Cons.prems, of rd c]
  have r: "is_running (runner (do_page_call rd c p))"
    and m: "stop_event (runner p) \<longrightarrow> stop_event (runner (do_page_call rd c p))" by auto
  from Cons.IH [OF r] m show ?case by auto
qed

lemma click_is_set_running:
  assumes "is_running (runner p)" and "click_is_set rd sched p = (stopped, sched1, p1)"
  shows "is_running (runner p1) \<and> stopped = stop_event (runner p1) \<and>
         (stop_event (runner p) \<longrightarrow> stopped)"
proof (cases sched)
  case Nil
  with assms show ?thesis by (auto simp: click_is_set_def)
next
  case (Cons cs rest)
  with assms page_calls_keep_running [OF assms(1), of rd cs] show ?thesis
    by (auto simp: click_is_set_def)
qed

lemma click_marker_steps:
  "list_all (\<lambda>st. st \<noteq> Polled True) (click_marker m)"
  by (simp add: click_marker_def)

lemma click_markers_after_stop:
  assumes "is_running (runner p)"
    and "click_markers rd ms sched p = (broke, steps, sched', p')"
  shows "is_running (runner p') \<and> after_stop calm steps \<and>
         (broke \<longrightarrow> stop_event (runner p')) \<and>
         (\<not> broke \<longrightarrow> list_all (\<lambda>st. st \<noteq> Polled True) steps)"
  using assms
proof (induction ms arbitrary: sched p broke steps sched' p')
  case Nil
  then show ?case by simp
next
  case (Cons r rs)
  obtain stopped sched1 p1 where c: "click_is_set rd sched p = (stopped, sched1, p1)"
    by (cases "click_is_set rd sched p") auto
  note k = click_is_set_running [OF Cons.prems(1) c]
  show ?case
  proof (cases stopped)
    case True
    with Cons.prems c k show ?thesis by auto
  next
    case False
    obtain broke2 steps2 sched2 p2 where
      r: "click_markers rd rs sched1 p1 = (broke2, steps2, sched2, p2)"
      by (cases "click_markers rd rs sched1 p1") auto
    from k have run1: "is_running (runner p1)" by simp
    note ih = Cons.IH [OF run1 r]
    let ?pre = "[Polled False] @ click_marker (heap p1 r)"
    have pre: "list_all (\<lambda>st. st \<noteq> Polled True) ?pre"
      using click_marker_steps [of "heap p1 r"] by simp
    from Cons.prems(2) c False r have st: "steps = ?pre @ steps2"
      and b: "broke = broke2" and p: "p' = p2" by auto
    have a: "after_stop calm steps"
      unfolding st using ih by (simp only: after_stop_append [OF pre])
    have n: "\<not> broke \<longrightarrow> list_all (\<lambda>st. st \<noteq> Polled True) steps"
      unfolding st b using ih pre by (auto simp: list_all_iff)
    from a n ih show ?thesis by (simp add: b p)
  qed
qed

lemma click_while_stopped:
  assumes "is_running (runner p)" and "stop_event (runner p)"
    and "click_while rd fuel ms cfg li sched p = (out, steps, sched', p')"
  shows "list_all calm steps"
proof (cases fuel)
  case 0
  with assms show ?thesis by simp
next
  case (Suc f)
  show ?thesis
  proof (cases "more_loops (cfg_loops cfg) li")
    case False
    with assms Suc show ?thesis by auto
  next
    case True
    obtain stopped sched1 p1 where c: "click_is_set rd sched p = (stopped, sched1, p1)"
      by (cases "click_is_set rd sched p") auto
    from click_is_set_running [OF assms(1) c] assms(2) have stopped by blast
    with assms(3) Suc True c show ?thesis by auto
  qed
qed

lemma click_while_after_stop:
  assumes "is_running (runner p)"
    and "click_while rd fuel ms cfg li sched p = (out, steps, sched', p')"
  shows "after_stop calm steps"
  using assms
proof (induction fuel arbitrary: li sched p out steps sched' p')
  case 0
  then show ?case by simp
next
  case (Suc fuel)
  show ?case
  proof (cases "more_loops (cfg_loops cfg) li")
    case False
    with Suc.prems show ?thesis by auto
  next
    case True
    note more = this
    obtain stopped sched1 p1 where c: "click_is_set rd sched p = (stopped, sched1, p1)"
      by (cases "click_is_set rd sched p") auto
    note k = click_is_set_running [OF Suc.prems(1) c]
    show ?thesis
    proof (cases stopped)
      case True
      with Suc.prems more c show ?thesis by auto
    next
      case False
      note ns = this
      obtain broke rsteps sched2 p2 where
        r: "click_markers rd ms sched1 p1 = (broke, rsteps, sched2, p2)"
        by (cases "click_markers rd ms sched1 p1") auto
      from k have run1: "is_running (runner p1)" by simp
      note m = click_markers_after_stop [OF run1 r]
      then have run2: "is_running (runner p2)" by simp
      obtain out3 steps3 sched3 p3 where
        w: "click_while rd fuel ms cfg (Suc li) sched2 p2 = (out3, steps3, sched3, p3)"
        by (cases "click_while rd fuel ms cfg (Suc li) sched2 p2") auto
      let ?begin = "[Polled False, Logged (MsgRoundBegin (Suc li))]"
      let ?tail = "[Logged (MsgRoundEnd (Suc li))] @ steps3"
      from Suc.prems(2) more c ns r w have st: "steps = ?begin @ rsteps @ ?tail" by auto
      have bg: "list_all (\<lambda>st. st \<noteq> Polled True) ?begin" by simp
      have "after_stop calm (rsteps @ ?tail)"
      proof (cases broke)
        case True
        with m have "stop_event (runner p2)" by simp
        from click_while_stopped [OF run2 this w] have "list_all calm ?tail" by simp
        with m show ?thesis by (intro after_stop_then_all) simp_all
      next
        case False
        with m have nr: "list_all (\<lambda>st. st \<noteq> Polled True) (rsteps @ [Logged (MsgRoundEnd (Suc li))])"
          by simp
        have "after_stop calm ((rsteps @ [Logged (MsgRoundEnd (Suc li))]) @ steps3)"
          using Suc.IH [OF run2 w] by (simp only: after_stop_append [OF nr])
        then show ?thesis by simp
      qed
      then show ?thesis unfolding st by (simp only: after_stop_append [OF bg])
    qed
  qed
qed

lemma click_worker_after_stop:
  assumes "is_running (runner p)"
  shows "after_stop calm (fst (snd (click_worker rd fuel ms cfg sched p)))"
proof -
  obtain out steps sched1 p1 where
    w: "click_while rd fuel ms cfg 0 sched p = (out, steps, sched1, p1)"
    by (cases "click_while rd fuel ms cfg 0 sched p") auto
  let ?head = "if cfg_delay cfg > 0
               then [Logged (MsgStartDelay (cfg_delay cfg)), Slept StartDelay (max 0 (cfg_delay cfg))]
               else []"
  have hd: "list_all (\<lambda>st. st \<noteq> Polled True) ?head" by simp
  have a: "after_stop calm steps" by (rule click_while_after_stop [OF assms w])
  have b: "after_stop calm (steps @ [Ended])" by (rule after_stop_then_all [OF a]) simp
  have c: "after_stop calm (?head @ steps)"
    using a by (simp only: after_stop_append [OF hd])
  have d: "after_stop calm (?head @ steps @ [Ended])"
    using b by (simp only: after_stop_append [OF hd])
  show ?thesis
    using c d by (simp add: click_worker_def w Let_def)
qed

text \<open>
  C2. In every run of the playback thread and in every run of the clicking thread (started
  by \<^verbatim>\<open>ClickRunner.start\<close>, so with the runner marked running), whatever the other threads
  call in between and however many rounds or events remain: once a read of the stop flag
  has returned True, the thread issues no further call of the mouse or keyboard
  controller. In the clicking thread nothing but log lines, one more read of the flag and
  the end callback follow: no sleep and no new round, so the whole run ends, not only the
  current round. (This holds for every amount of fuel, so for every prefix of a run that
  does not end.)
\<close>

theorem no_output_after_cancellation:
  "after_stop no_output (fst (snd (play_loop fuel task sched s))) \<and>
   (is_running (runner p) \<longrightarrow>
      after_stop calm (fst (snd (click_worker rd fuel' ms cfg sched' p))) \<and>
      after_stop no_output (fst (snd (click_worker rd fuel' ms cfg sched' p))))"
proof (intro conjI impI)
  show "after_stop no_output (fst (snd (play_loop fuel task sched s)))"
    by (rule play_loop_after_stop)
next
  assume r: "is_running (runner p)"
  show c: "after_stop calm (fst (snd (click_worker rd fuel' ms cfg sched' p)))"
    by (rule click_worker_after_stop [OF r])
  show "after_stop no_output (fst (snd (click_worker rd fuel' ms cfg sched' p)))"
    by (rule after_stop_mono [OF c]) (rule calm_no_output)
qed

text \<open>A playback of two rounds stopped during the first gap, and a clicking run of two
  rounds stopped (by \<^verbatim>\<open>toggle_start\<close>) after the first click.\<close>

theorem no_output_after_cancellation_witness:
  "fst (snd (play_loop 3 move_twice [[], [], [CallStopPlayback]]
        (player [mk_event 0 ''mouse_move''] True))) =
     [Polled False, Logged (MsgLoopBegin 1),
      Polled False, Slept EventWait 0, Issued (SetPosition PNone PNone),
      Logged (MsgLoopEnd 1), Slept LoopGap 1,
      Polled True, Logged MsgPlaybackDone, Ended] \<and>
   after_stop no_output (fst (snd (play_loop 3 move_twice [[], [], [CallStopPlayback]]
        (player [mk_event 0 ''mouse_move''] True)))) \<and>
   is_running (runner (clicker True)) \<and>
   fst (snd (click_worker sample_readers 3 [0, 1] \<lparr>cfg_loops = 2, cfg_delay = 0\<rparr>
        [[], [], [CallToggleStart]] (clicker True))) =
     [Polled False, Logged (MsgRoundBegin 1),
      Polled False, Issued (SetPosition (PNum 5) (PNum 5)), Issued (Click LeftButton),
      Logged (MsgClicked 1 True 5 5), Slept PostClick (2 / 10),
      Polled True, Logged (MsgRoundEnd 1),
      Polled True, Logged MsgClickingDone, Ended] \<and>
   after_stop calm (fst (snd (click_worker sample_readers 3 [0, 1] \<lparr>cfg_loops = 2, cfg_delay = 0\<rparr>
        [[], [], [CallToggleStart]] (clicker True))))"
  using no_output_after_cancellation
    [of 3 move_twice "[[], [], [CallStopPlayback]]" "player [mk_event 0 ''mouse_move''] True"
        "clicker True" sample_readers 3 "[0, 1]" "\<lparr>cfg_loops = 2, cfg_delay = 0\<rparr>"
        "[[], [], [CallToggleStart]]"]
  by (simp add: play_loop_def move_twice_def numeral_3_eq_3 more_loops_def play_is_set_def
      player_def mk_event_def apply_event_def stop_playback_def
      click_worker_def click_is_set_def clicker_def two_markers_def toggle_start_def
      runner_stop_def click_marker_def)

section \<open>The marker store\<close>

text \<open>
  C5. The claim is that no edit of the page's markers made after the start reaches a run
  in flight. \<^verbatim>\<open>toggle_start\<close> hands the run \<^verbatim>\<open>self.markers.copy()\<close>, a new list of the same
  \<^verbatim>\<open>Marker\<close> objects, and the editor changes the objects in place: a run of two rounds over
  the page's two markers, with the x of marker 1 edited to 99 between the rounds, clicks
  at (5, 5) in the first round and at (99, 5) in the second.
\<close>

theorem edit_reaches_running_clicks:
  "fst (snd (click_worker sample_readers 3 (markers (clicker True)) two_rounds
        [[], [], [], [CallCommitEditor 1 ''x'' ''99'']] (clicker True))) =
     [Polled False, Logged (MsgRoundBegin 1),
      Polled False, Issued (SetPosition (PNum 5) (PNum 5)), Issued (Click LeftButton),
      Logged (MsgClicked 1 True 5 5), Slept PostClick (2 / 10),
      Polled False, Issued (SetPosition (PNum 50) (PNum 50)), Issued (Click RightButton),
      Logged (MsgClicked 2 False 50 50), Slept PostClick (1 / 10),
      Logged (MsgRoundEnd 1),
      Polled False, Logged (MsgRoundBegin 2),
      Polled False, Issued (SetPosition (PNum 99) (PNum 5)), Issued (Click LeftButton),
      Logged (MsgClicked 1 True 99 5), Slept PostClick (2 / 10),
      Polled False, Issued (SetPosition (PNum 50) (PNum 50)), Issued (Click RightButton),
      Logged (MsgClicked 2 False 50 50), Slept PostClick (1 / 10),
      Logged (MsgRoundEnd 2), Logged MsgClickingDone, Ended]"
  by (simp add: click_worker_def two_rounds_def numeral_3_eq_3 more_loops_def click_is_set_def
      clicker_def two_markers_def sample_readers_def commit_editor_def py_nth_def refresh_def
      set_marker_def click_marker_def trunc_def)

section \<open>The interval of a marker\<close>

lemma renumber_interval: "m_interval (renumber rs i h r) = m_interval (h r)"
  by (induction rs arbitrary: i h) auto

lemma markers_set_marker [simp]: "markers (set_marker r f p) = markers p"
  by (simp add: set_marker_def)

lemma markers_add_marker: "markers (add_marker p) = markers p @ [next_ref p]"
  by (simp add: add_marker_def page_logged_def refresh_def Let_def)

lemma editor_stores_interval:
  assumes "py_nth (markers p) (shown - 1) = Some r" and "read_float rd new_val = Some iv"
  shows "m_interval (heap (commit_editor rd shown ''interval'' new_val p) r) = max (1 / 100) iv"
  using assms
  by (simp add: commit_editor_def refresh_def set_marker_def renumber_interval max_def)

lemma load_marker_interval:
  assumes "py_get m ''interval'' = Inr (Some v)" and "py_float rd v = Inr iv"
    and "load_marker rd m p = (None, p')"
  shows "markers p' = markers p @ [next_ref p] \<and> m_interval (heap p' (next_ref p)) = iv"
  using assms
  by (auto simp: load_marker_def Let_def markers_add_marker set_marker_def
      split: sum.splits option.splits)

text \<open>
  C6 (amended). The interval stored in a marker is not clamped into [0.01, 5.0]. The editor
  raises a value below 0.01 to 0.01 and stores every other value as typed; loading stores
  the document's value as it is. The clamp is applied where the value is used: the
  clicking thread sleeps \<open>max 0.01 (min 5.0 interval)\<close> after a click, which lies in
  [0.01, 5.0] whatever is stored.
\<close>

theorem stored_interval_clamped_at_use:
  "(py_nth (markers p) (shown - 1) = Some r \<and> read_float rd new_val = Some iv \<longrightarrow>
      m_interval (heap (commit_editor rd shown ''interval'' new_val p) r) = max (1 / 100) iv) \<and>
   (py_get m ''interval'' = Inr (Some v) \<and> py_float rd v = Inr iv' \<and>
      load_marker rd m p = (None, p') \<longrightarrow>
      markers p' = markers p @ [next_ref p] \<and> m_interval (heap p' (next_ref p)) = iv') \<and>
   last (click_marker mk) = Slept PostClick (max (1 / 100) (min 5 (m_interval mk))) \<and>
   1 / 100 \<le> max (1 / 100) (min 5 (m_interval mk)) \<and>
   max (1 / 100) (min 5 (m_interval mk)) \<le> 5"
  using editor_stores_interval [of p shown r rd new_val iv]
    load_marker_interval [of m v rd iv' p p']
  by (simp add: click_marker_def)

text \<open>The editor stores 0.0001 as 0.01; a loaded interval of 9 is stored as 9, and the
  thread sleeps 5 seconds after clicking that marker.\<close>

theorem stored_interval_clamped_at_use_witness:
  "m_interval (heap (commit_editor sample_readers 1 ''interval'' ''0.0001'' (clicker False)) 0) = 1 / 100 \<and>
   fst (load_marker sample_readers nine_doc (clicker False)) = None \<and>
   markers (snd (load_marker sample_readers nine_doc (clicker False))) = [0, 1, 2] \<and>
   m_interval (heap (snd (load_marker sample_readers nine_doc (clicker False))) 2) = 9 \<and>
   last (click_marker (heap (snd (load_marker sample_readers nine_doc (clicker False))) 2)) =
     Slept PostClick 5"
proof -
  have a: "py_nth (markers (clicker False)) (1 - 1) = Some 0"
    by (simp add: clicker_def py_nth_def)
  have b: "read_float sample_readers ''0.0001'' = Some (1 / 10000)"
    by (simp add: sample_readers_def)
  have c: "py_get nine_doc ''interval'' = Inr (Some (PNum 9))"
    by (simp add: nine_doc_def)
  have d: "py_float sample_readers (PNum 9) = Inr 9" by simp
  have e: "fst (load_marker sample_readers nine_doc (clicker False)) = None"
    by (simp add: clicker_def two_markers_def sample_readers_def refresh_def set_marker_def
        load_marker_def add_marker_def page_logged_def nine_doc_def Let_def)
  then have f: "load_marker sample_readers nine_doc (clicker False) =
      (None, snd (load_marker sample_readers nine_doc (clicker False)))"
    by (metis prod.collapse)
  have n: "next_ref (clicker False) = 2" "markers (clicker False) = [0, 1]"
    by (simp_all add: clicker_def)
  show ?thesis
    using stored_interval_clamped_at_use
      [of "clicker False" 1 0 sample_readers "''0.0001''" "1 / 10000" nine_doc "PNum 9" 9
          "snd (load_marker sample_readers nine_doc (clicker False))"
          "heap (snd (load_marker sample_readers nine_doc (clicker False))) 2"]
      a b c d e f n
    by simp
qed

text \<open>C6 as stated fails: the editor stores 9.0 as 9.0, not 5.0, and loading stores 0.0001
  as 0.0001, not 0.01.\<close>

theorem stored_interval_counterexample:
  "m_interval (heap (commit_editor sample_readers 1 ''interval'' ''9.0'' (clicker False)) 0) = 9 \<and>
   fst (load_config_file sample_readers tiny_doc (clicker False)) = None \<and>
   map (\<lambda>r. m_interval (heap (snd (load_config_file sample_readers tiny_doc (clicker False))) r))
       (markers (snd (load_config_file sample_readers tiny_doc (clicker False)))) = [1 / 10000]"
  by (simp add: clicker_def two_markers_def sample_readers_def commit_editor_def py_nth_def
      refresh_def set_marker_def load_marker_def add_marker_def page_logged_def Let_def
      load_config_file_def clear_markers_def load_hotkeys_def tiny_doc_def)

section \<open>Rejections and the log\<close>

text \<open>
  C9. The claim is that no rejected operation returns failure without a log line, the
  start of the click runner while it is running included. \<^verbatim>\<open>ClickRunner.start\<close> on a
  running runner returns False and logs nothing (lines 222-223): the runner, its log
  included, is as before. Its sibling guard, for an empty marker list, does log.
\<close>

theorem start_while_running_is_silent:
  "runner_start [0, 1] two_rounds (runner (clicker True)) = (False, runner (clicker True)) \<and>
   runner_start [] two_rounds (runner (clicker False)) =
     (False, (runner (clicker False))\<lparr>runner_log := [MsgNoMarkers]\<rparr>)"
  by (simp add: runner_start_def clicker_def)

section \<open>Loading\<close>




section \<open>Capture sessions\<close>

lemma page_put_page [simp]: "page pid (put_page pid p a) = p"
  by (cases pid) auto

lemma page_put_other [simp]: "page (other_page pid) (put_page pid p a) = page (other_page pid) a"
  by (cases pid) auto

lemma page_stop_hotkeys [simp]: "page q (stop_hotkeys a) = page q a"
  by (cases q) (auto simp: stop_hotkeys_def)

lemma page_refresh_hotkeys [simp]: "page q (refresh_hotkeys a) = page q a"
  by (cases q) (auto simp: refresh_hotkeys_def)

lemma other_other [simp]: "other_page (other_page pid) = pid"
  by (cases pid) auto

lemma put_page_same [simp]: "put_page pid (page pid a) a = a"
  by (cases pid) auto

lemma clk_capturing_eval:
  "clk_capturing =
     app0\<lparr>page_clk := (page_clk app0)\<lparr>capture_action := Some ''start_stop'', cap_listener := True,
                                       buttons_enabled := False,
                                       hk_log := [MsgCapturing ''start_stop'']\<rparr>,
          global_listener := False\<rparr>"
  by (simp add: clk_capturing_def begin_capture_def app0_def idle_page_def stop_hotkeys_def Let_def)

text \<open>
  C3 (amended). At most one capture session per page: while a page's session is capturing,
  every begin-capture request on that page, for any action, is rejected with the busy
  message and changes nothing, so no new listener is started, until the session is
  committed or cancelled (\<^verbatim>\<open>_end_capture\<close> frees the page). A request on a page that is not
  capturing, for one of its actions, starts a session whatever the other page is doing,
  and leaves the other page as it is.
\<close>

theorem begin_capture_busy_per_page:
  "(capture_action (page pid a) \<noteq> None \<longrightarrow> begin_capture pid action a = (ReplyBusy, a)) \<and>
   (capture_action (page pid a) = None \<and> action \<in> set (label_rows pid) \<and>
    map_of (hk_table (page pid a)) action = Some (PStr chord) \<longrightarrow>
      fst (begin_capture pid action a) = ReplyStarted \<and>
      capture_action (page pid (snd (begin_capture pid action a))) = Some action \<and>
      cap_listener (page pid (snd (begin_capture pid action a))) \<and>
      page (other_page pid) (snd (begin_capture pid action a)) = page (other_page pid) a) \<and>
   capture_action (page pid (end_capture pid a)) = None \<and>
   \<not> cap_listener (page pid (end_capture pid a))"
  by (simp add: begin_capture_def end_capture_def Let_def)

text \<open>The clicker page starts a session for \<^verbatim>\<open>start_stop\<close>; a request for \<^verbatim>\<open>add_marker\<close> on
  the same page is then rejected, and after the session's end the page is free.\<close>

theorem begin_capture_busy_per_page_witness:
  "fst (begin_capture ClkPage ''start_stop'' app0) = ReplyStarted \<and>
   capture_action (page ClkPage clk_capturing) = Some ''start_stop'' \<and>
   begin_capture ClkPage ''add_marker'' clk_capturing = (ReplyBusy, clk_capturing) \<and>
   capture_action (page ClkPage (end_capture ClkPage clk_capturing)) = None"
  using begin_capture_busy_per_page [of ClkPage app0 "''start_stop''" "''<f7>''"]
    begin_capture_busy_per_page [of ClkPage clk_capturing "''add_marker''"]
  by (simp add: clk_capturing_def [symmetric]) (simp add: clk_capturing_eval app0_def idle_page_def)

text \<open>
  C3 as stated fails: the guard reads the page's own \<^verbatim>\<open>_capture_action\<close> (lines 448 and
  1249). While the clicker page is capturing, a request on the recorder page is accepted:
  it starts a second listener, and two sessions are open at once.
\<close>

theorem second_session_counterexample:
  "capture_action (page_clk clk_capturing) = Some ''start_stop'' \<and>
   cap_listener (page_clk clk_capturing) \<and>
   fst (begin_capture RecPage ''toggle_play'' clk_capturing) = ReplyStarted \<and>
   capture_action (page_rec (snd (begin_capture RecPage ''toggle_play'' clk_capturing))) =
     Some ''toggle_play'' \<and>
   cap_listener (page_rec (snd (begin_capture RecPage ''toggle_play'' clk_capturing))) \<and>
   cap_listener (page_clk (snd (begin_capture RecPage ''toggle_play'' clk_capturing)))"
  by (simp add: clk_capturing_eval begin_capture_def app0_def idle_page_def stop_hotkeys_def Let_def)

section \<open>Chords and their owners\<close>

lemma filter_other_keys:
  "k \<notin> fst ` set al \<Longrightarrow> filter (\<lambda>kv. fst kv \<noteq> k) al = al"
  by (induction al) auto

lemma update_values:
  assumes "distinct (map fst al)"
  shows "set (map snd (AList.update k v al)) \<subseteq>
           insert v (set (map snd (filter (\<lambda>kv. fst kv \<noteq> k) al)))"
  using assms
proof (induction al)
  case Nil
  then show ?case by simp
next
  case (Cons kv al)
  show ?case
  proof (cases "fst kv = k")
    case True
    with Cons.prems have "k \<notin> fst ` set al" by auto
    then have "filter (\<lambda>x. fst x \<noteq> k) al = al" by (rule filter_other_keys)
    with True show ?thesis by auto
  next
    case False
    from Cons.prems have "distinct (map fst al)" by simp
    from Cons.IH [OF this] False show ?thesis by auto
  qed
qed

lemma update_distinct_values:
  assumes "distinct (map fst al)" and "distinct (map snd al)"
    and "v \<notin> set (map snd (filter (\<lambda>kv. fst kv \<noteq> k) al))"
  shows "distinct (map snd (AList.update k v al))"
  using assms
proof (induction al)
  case Nil
  then show ?case by simp
next
  case (Cons kv al)
  show ?case
  proof (cases "fst kv = k")
    case True
    with Cons.prems have "k \<notin> fst ` set al" by auto
    then have "filter (\<lambda>x. fst x \<noteq> k) al = al" by (rule filter_other_keys)
    with Cons.prems True show ?thesis by auto
  next
    case False
    from Cons.prems False have v: "v \<noteq> snd kv" by auto
    from Cons.prems False have ih: "distinct (map snd (AList.update k v al))"
      by (intro Cons.IH) auto
    have "snd kv \<notin> set (map snd (AList.update k v al))"
      using update_values [of al k v] v Cons.prems(1,2) by auto
    with ih False show ?thesis by simp
  qed
qed

lemma own_conflict_iff:
  "list_ex (\<lambda>kv. fst kv \<noteq> act \<and> snd kv = v) tab \<longleftrightarrow>
     v \<in> snd ` {x \<in> set tab. fst x \<noteq> act}"
  by (force simp: list_ex_iff)

lemma in_use_iff:
  assumes "is_hotkey_in_use pid combo (Some act) a = Inr b"
  shows "b = (PStr combo \<in> set (chords_but pid act a))"
proof (cases "PStr combo \<in> set (map snd (filter (\<lambda>kv. fst kv \<noteq> act) (hk_table (page pid a))))")
  case True
  with assms show ?thesis
    by (simp add: is_hotkey_in_use_def own_conflict_iff chords_but_def)
next
  case False
  with assms show ?thesis
    by (auto simp: is_hotkey_in_use_def own_conflict_iff chords_but_def get_all_hotkeys_def
        Let_def split: if_splits)
qed

lemma update_keeps_disjoint:
  assumes "distinct (map fst al)" and "v \<notin> set others"
    and "set (map snd al) \<inter> set others = {}"
  shows "set (map snd (AList.update k v al)) \<inter> set others = {}"
  using update_values [OF assms(1), of k v] assms(2,3) by auto

lemma table_end_capture [simp]: "hk_table (page q (end_capture pid a)) = hk_table (page q a)"
  by (cases q; cases pid) (simp_all add: end_capture_def refresh_hotkeys_def)

lemma commit_distinct:
  assumes keys: "distinct (map fst (hk_table (page_rec a)))" "distinct (map fst (hk_table (page_clk a)))"
    and dis: "distinct (all_chords a)"
    and free: "v \<notin> set (chords_but pid act a)"
    and tab: "hk_table (page pid a') = AList.update act v (hk_table (page pid a))"
    and oth: "hk_table (page (other_page pid) a') = hk_table (page (other_page pid) a)"
  shows "distinct (all_chords a')"
proof (cases pid)
  case RecPage
  from free RecPage have f1: "v \<notin> set (map snd (filter (\<lambda>kv. fst kv \<noteq> act) (hk_table (page_rec a))))"
    and f2: "v \<notin> set (map snd (hk_table (page_clk a)))" by (simp_all add: chords_but_def)
  from dis have d1: "distinct (map snd (hk_table (page_rec a)))"
    and d2: "distinct (map snd (hk_table (page_clk a)))"
    and d3: "set (map snd (hk_table (page_rec a))) \<inter> set (map snd (hk_table (page_clk a))) = {}"
    by (simp_all add: all_chords_def)
  have "distinct (map snd (AList.update act v (hk_table (page_rec a))))"
    by (rule update_distinct_values [OF keys(1) d1 f1])
  moreover have "set (map snd (AList.update act v (hk_table (page_rec a)))) \<inter>
      set (map snd (hk_table (page_clk a))) = {}"
    by (rule update_keeps_disjoint [OF keys(1) f2 d3])
  ultimately show ?thesis
    using tab oth RecPage d2 by (simp add: all_chords_def)
next
  case ClkPage
  from free ClkPage have f1: "v \<notin> set (map snd (filter (\<lambda>kv. fst kv \<noteq> act) (hk_table (page_clk a))))"
    and f2: "v \<notin> set (map snd (hk_table (page_rec a)))" by (simp_all add: chords_but_def)
  from dis have d1: "distinct (map snd (hk_table (page_rec a)))"
    and d2: "distinct (map snd (hk_table (page_clk a)))"
    and d3: "set (map snd (hk_table (page_clk a))) \<inter> set (map snd (hk_table (page_rec a))) = {}"
    by (auto simp: all_chords_def)
  have "distinct (map snd (AList.update act v (hk_table (page_clk a))))"
    by (rule update_distinct_values [OF keys(2) d2 f1])
  moreover have "set (map snd (AList.update act v (hk_table (page_clk a)))) \<inter>
      set (map snd (hk_table (page_rec a))) = {}"
    by (rule update_keeps_disjoint [OF keys(2) f2 d3])
  ultimately show ?thesis
    using tab oth ClkPage d1 by (auto simp: all_chords_def)
qed

lemma same_tables_distinct:
  assumes "hk_table (page_rec a') = hk_table (page_rec a)"
    and "hk_table (page_clk a') = hk_table (page_clk a)"
  shows "distinct (all_chords a') = distinct (all_chords a)"
  using assms by (simp add: all_chords_def)

lemma tables_put_page_same:
  "hk_table p = hk_table (page pid a) \<Longrightarrow>
     hk_table (page_rec (put_page pid p a)) = hk_table (page_rec a) \<and>
     hk_table (page_clk (put_page pid p a)) = hk_table (page_clk a)"
  by (cases pid) auto

text \<open>
  C4 (amended). A chord typed in a capture session that another action of the same page or
  any action of the other page holds is rejected: both pages' tables stay as they are, the
  session goes on, and (unless the check itself raised) the conflict is logged. A chord
  that nobody else holds is assigned to the session's action, in its page's table only,
  and the session ends. So, the tables being dictionaries, a capture session keeps the
  chords of both pages pairwise distinct when they were. (Nothing is claimed of the
  operations that store hotkeys without a capture session.)
\<close>

theorem capture_commit_keeps_chords_unique:
  assumes "cap_listener (page pid a)" and "capture_action (page pid a) = Some act"
    and "on_press pid (TokenKey keystr) a = (err, a')"
    and "combo = make_combo (cap_pressed (page pid a)) keystr"
  shows "(PStr combo \<in> set (chords_but pid act a) \<longrightarrow>
            hk_table (page_rec a') = hk_table (page_rec a) \<and>
            hk_table (page_clk a') = hk_table (page_clk a) \<and>
            capture_action (page pid a') = Some act \<and>
            (err = None \<longrightarrow> hk_log (page pid a') = hk_log (page pid a) @ [MsgConflict combo])) \<and>
         (PStr combo \<notin> set (chords_but pid act a) \<and> err = None \<longrightarrow>
            hk_table (page pid a') = AList.update act (PStr combo) (hk_table (page pid a)) \<and>
            hk_table (page (other_page pid) a') = hk_table (page (other_page pid) a) \<and>
            capture_action (page pid a') = None) \<and>
         (distinct (map fst (hk_table (page_rec a))) \<and>
          distinct (map fst (hk_table (page_clk a))) \<and> distinct (all_chords a) \<longrightarrow>
            distinct (all_chords a'))"
proof (cases "is_hotkey_in_use pid combo (Some act) a")
  case (Inl e)
  with assms have "a' = a" "err = Some e" by (simp_all add: on_press_def Let_def)
  with assms(2) show ?thesis by simp
next
  case (Inr b)
  note iff = in_use_iff [OF Inr]
  show ?thesis
  proof (cases b)
    case True
    let ?p = "(page pid a)\<lparr>hk_log := hk_log (page pid a) @ [MsgConflict combo], cap_pressed := []\<rparr>"
    from assms Inr True have a': "a' = put_page pid ?p a" and e: "err = None"
      by (simp_all add: on_press_def Let_def)
    have t: "hk_table (page_rec a') = hk_table (page_rec a) \<and>
             hk_table (page_clk a') = hk_table (page_clk a)"
      unfolding a' by (rule tables_put_page_same) simp
    with same_tables_distinct [of a' a] have d: "distinct (all_chords a') = distinct (all_chords a)"
      by simp
    from iff True have held: "PStr combo \<in> set (chords_but pid act a)" by simp
    show ?thesis using t d held assms(2) by (simp add: a')
  next
    case False
    let ?p = "(page pid a)\<lparr>hk_table := AList.update act (PStr combo) (hk_table (page pid a)),
                            hk_log := hk_log (page pid a) @ [MsgHotkeySet act combo]\<rparr>"
    from assms Inr False have a': "a' = end_capture pid (put_page pid ?p a)" and e: "err = None"
      by (simp_all add: on_press_def Let_def)
    from iff False have free: "PStr combo \<notin> set (chords_but pid act a)" by simp
    have tab: "hk_table (page pid a') = AList.update act (PStr combo) (hk_table (page pid a))"
      by (simp add: a')
    have oth: "hk_table (page (other_page pid) a') = hk_table (page (other_page pid) a)"
      by (simp add: a')
    have cap: "capture_action (page pid a') = None"
      by (simp add: a' end_capture_def)
    have dis: "distinct (map fst (hk_table (page_rec a))) \<and>
          distinct (map fst (hk_table (page_clk a))) \<and> distinct (all_chords a) \<longrightarrow>
            distinct (all_chords a')"
      using commit_distinct [OF _ _ _ free tab oth] by blast
    show ?thesis using free tab oth cap dis by simp
  qed
qed

text \<open>In a session of the clicker page for \<^verbatim>\<open>start_stop\<close>, F9, the recorder's chord, is
  rejected, and F8 is assigned.\<close>

theorem capture_commit_keeps_chords_unique_witness:
  "hk_table (page_clk (snd (on_press ClkPage (TokenKey ''<f9>'') clk_capturing))) =
     [(''start_stop'', PStr ''<f7>''), (''add_marker'', PStr ''<f6>'')] \<and>
   hk_log (page_clk (snd (on_press ClkPage (TokenKey ''<f9>'') clk_capturing))) =
     [MsgCapturing ''start_stop'', MsgConflict ''<f9>''] \<and>
   hk_table (page_clk (snd (on_press ClkPage (TokenKey ''<f8>'') clk_capturing))) =
     [(''start_stop'', PStr ''<f8>''), (''add_marker'', PStr ''<f6>'')] \<and>
   distinct (all_chords (snd (on_press ClkPage (TokenKey ''<f8>'') clk_capturing)))"
proof -
  have l: "cap_listener (page ClkPage clk_capturing)"
    and c: "capture_action (page ClkPage clk_capturing) = Some ''start_stop''"
    by (simp_all add: clk_capturing_eval)
  have p: "cap_pressed (page ClkPage clk_capturing) = []"
    by (simp add: clk_capturing_eval app0_def idle_page_def)
  have m9: "''<f9>'' = make_combo (cap_pressed (page ClkPage clk_capturing)) ''<f9>''"
    and m8: "''<f8>'' = make_combo (cap_pressed (page ClkPage clk_capturing)) ''<f8>''"
    using p by (simp_all add: make_combo_def)
  have e9: "on_press ClkPage (TokenKey ''<f9>'') clk_capturing =
      (None, snd (on_press ClkPage (TokenKey ''<f9>'') clk_capturing))"
    and e8: "on_press ClkPage (TokenKey ''<f8>'') clk_capturing =
      (None, snd (on_press ClkPage (TokenKey ''<f8>'') clk_capturing))"
    by (simp_all add: on_press_def clk_capturing_eval app0_def idle_page_def make_combo_def
        is_hotkey_in_use_def get_all_hotkeys_def Let_def)
  have t: "hk_table (page_rec clk_capturing) =
        [(''toggle_record'', PStr ''<f9>''), (''toggle_play'', PStr ''<f10>'')]"
      "hk_table (page_clk clk_capturing) =
        [(''start_stop'', PStr ''<f7>''), (''add_marker'', PStr ''<f6>'')]"
      "hk_log (page_clk clk_capturing) = [MsgCapturing ''start_stop'']"
    by (simp_all add: clk_capturing_eval app0_def idle_page_def)
  show ?thesis
    using capture_commit_keeps_chords_unique [OF l c e9 m9]
      capture_commit_keeps_chords_unique [OF l c e8 m8] t
    by (simp add: chords_but_def all_chords_def)
qed

text \<open>
  C4 as stated fails: \<^verbatim>\<open>import_state\<close> stores the hotkeys of a saved state with
  \<^verbatim>\<open>self.hotkeys.update(hk)\<close> and checks nothing (line 848; its comment leaves duplicates
  to the main program). A saved clicker state with F9 for \<^verbatim>\<open>start_stop\<close> is accepted while
  the recorder page holds F9 for \<^verbatim>\<open>toggle_record\<close>: the clicker's table changes and the
  chord has two owners.
\<close>

theorem import_state_counterexample:
  "distinct (all_chords app0) \<and>
   hk_table (page_rec (import_state_hotkeys ClkPage [(''start_stop'', PStr ''<f9>'')] app0)) =
     [(''toggle_record'', PStr ''<f9>''), (''toggle_play'', PStr ''<f10>'')] \<and>
   hk_table (page_clk (import_state_hotkeys ClkPage [(''start_stop'', PStr ''<f9>'')] app0)) =
     [(''start_stop'', PStr ''<f9>''), (''add_marker'', PStr ''<f6>'')] \<and>
   \<not> distinct (all_chords (import_state_hotkeys ClkPage [(''start_stop'', PStr ''<f9>'')] app0))"
  by (simp add: import_state_hotkeys_def app0_def idle_page_def all_chords_def)

end
